theory Spec2Isabelle
  imports Main
begin

section \<open>The documentation scraper \<open>tools/scrape_api_docs.py\<close>\<close>

text \<open>
  The script drives a headless browser over the eight pages of \<open>DOCS_URLS\<close> and one
  trailing Notion page. Everything the browser, the network and the operating system
  decide is an input of the model: for each URL an \<open>attempt\<close> says which of the awaited
  calls raises (and with which message), which document the page holds when the extraction
  script runs, and whether opening or writing the output file raises. Python strings are
  modelled by their UTF-8 bytes, which is also what \<open>open(..., encoding='utf-8')\<close> puts
  on disk. \<open>print\<close>, \<open>os.makedirs\<close>, the browser launch and \<open>browser.close()\<close> are
  taken to succeed.
\<close>

subsection \<open>The page's document and the extraction script\<close>

text \<open>
  A rendered page is a tree of elements (tag, class list, children) and text nodes. A
  node of the live document is addressed by its path of child indices from the root
  element, so that a change made through a reference to an element is a change of the
  document. The value of \<open>document.title\<close> is kept beside the tree: it is the text of
  the document's \<open>title\<close> element, which the script does not touch.
\<close>

datatype node = Text string | Element string "string list" "node list"

type_synonym path = "nat list"

record document =
  root :: node
  doc_title :: string

text \<open>
  \<open>innerText\<close> depends on the style and layout of the page and \<open>innerHTML\<close> on the
  attributes the tree above leaves out; both getters are parameters.
\<close>

record browser =
  inner_text :: "node \<Rightarrow> string"
  inner_html :: "node \<Rightarrow> string"

text \<open>The selectors of the script: a type selector, a class selector, a comma group.\<close>

datatype simple_selector = Tag string | Class string

type_synonym selector = "simple_selector list"

fun matches_simple :: "simple_selector \<Rightarrow> node \<Rightarrow> bool" where
  "matches_simple s (Text x) = False"
| "matches_simple (Tag t) (Element t' cs ks) = (t = t')"
| "matches_simple (Class c) (Element t' cs ks) = (c \<in> set cs)"

definition matches :: "selector \<Rightarrow> node \<Rightarrow> bool" where
  "matches sel n = list_ex (\<lambda>s. matches_simple s n) sel"

text \<open>
  The paths, in document order, of the elements matching a selector: \<open>paths_in\<close> for a
  node and its descendants, \<open>paths_in_list\<close> for the children of a node from index \<open>i\<close> on.
\<close>

fun paths_in :: "selector \<Rightarrow> path \<Rightarrow> node \<Rightarrow> path list"
  and paths_in_list :: "selector \<Rightarrow> path \<Rightarrow> nat \<Rightarrow> node list \<Rightarrow> path list" where
  "paths_in sel p (Text x) = []"
| "paths_in sel p (Element t cs ks) =
     (if matches sel (Element t cs ks) then [p] else []) @ paths_in_list sel p 0 ks"
| "paths_in_list sel p i [] = []"
| "paths_in_list sel p i (k # ks) = paths_in sel (p @ [i]) k @ paths_in_list sel p (Suc i) ks"

text \<open>\<open>document.querySelector(sel)\<close>: the first matching element of the document, or null.\<close>

definition query_selector :: "selector \<Rightarrow> document \<Rightarrow> path option" where
  "query_selector sel d = (case paths_in sel [] (root d) of [] \<Rightarrow> None | p # ps \<Rightarrow> Some p)"

text \<open>
  \<open>element.querySelectorAll(sel)\<close>: the matching descendants of the element (never the
  element itself), as paths from the element.
\<close>

fun query_selector_all :: "selector \<Rightarrow> node \<Rightarrow> path list" where
  "query_selector_all sel (Text x) = []"
| "query_selector_all sel (Element t cs ks) = paths_in_list sel [] 0 ks"

text \<open>
  \<open>document.body\<close>: the first \<open>body\<close> or \<open>frameset\<close> child of the \<open>html\<close> root element,
  or null.
\<close>

fun is_body :: "node \<Rightarrow> bool" where
  "is_body (Text x) = False"
| "is_body (Element t cs ks) = (t = ''body'' \<or> t = ''frameset'')"

fun first_index :: "('a \<Rightarrow> bool) \<Rightarrow> nat \<Rightarrow> 'a list \<Rightarrow> nat option" where
  "first_index P i [] = None"
| "first_index P i (x # xs) = (if P x then Some i else first_index P (Suc i) xs)"

fun document_body :: "document \<Rightarrow> path option" where
  "document_body d =
     (case root d of
        Text x \<Rightarrow> None
      | Element t cs ks \<Rightarrow>
          (if t = ''html'' then map_option (\<lambda>i. [i]) (first_index is_body 0 ks) else None))"

text \<open>Reading and replacing the node at a path.\<close>

fun node_at :: "node \<Rightarrow> path \<Rightarrow> node option" where
  "node_at n [] = Some n"
| "node_at (Text x) (i # p) = None"
| "node_at (Element t cs ks) (i # p) = (if i < length ks then node_at (ks ! i) p else None)"

fun replace_at :: "node \<Rightarrow> path \<Rightarrow> node \<Rightarrow> node" where
  "replace_at n [] m = m"
| "replace_at (Text x) (i # p) m = Text x"
| "replace_at (Element t cs ks) (i # p) m =
     (if i < length ks then Element t cs (ks[i := replace_at (ks ! i) p m])
      else Element t cs ks)"

text \<open>
  \<open>scripts.forEach(s => s.remove())\<close> over a static node list: every listed node is
  detached from its parent. \<open>remove_all S p n\<close> is the node \<open>n\<close>, sitting at path \<open>p\<close>,
  once the nodes whose paths are in \<open>S\<close> are detached.
\<close>

fun remove_all :: "path list \<Rightarrow> path \<Rightarrow> node \<Rightarrow> node"
  and remove_all_list :: "path list \<Rightarrow> path \<Rightarrow> nat \<Rightarrow> node list \<Rightarrow> node list" where
  "remove_all S p (Text x) = Text x"
| "remove_all S p (Element t cs ks) = Element t cs (remove_all_list S p 0 ks)"
| "remove_all_list S p i [] = []"
| "remove_all_list S p i (k # ks) =
     (if p @ [i] \<in> set S then [] else [remove_all S (p @ [i]) k])
       @ remove_all_list S p (Suc i) ks"

record content =
  text_field :: string
  html_field :: string
  title_field :: string

definition or_else :: "'a option \<Rightarrow> 'a option \<Rightarrow> 'a option" where
  "or_else a b = (case a of Some x \<Rightarrow> Some x | None \<Rightarrow> b)"

text \<open>The container chosen by the chain of \<open>||\<close> at the head of the script.\<close>

definition select_main :: "document \<Rightarrow> path option" where
  "select_main d =
     or_else (query_selector [Tag ''main''] d)
    (or_else (query_selector [Tag ''article''] d)
    (or_else (query_selector [Class ''documentation''] d)
    (or_else (query_selector [Class ''notion-page-content''] d)
             (document_body d))))"

definition script_style :: selector where
  "script_style = [Tag ''script'', Tag ''style'']"

text \<open>
  The script passed to \<open>page.evaluate\<close>. It returns the value handed back to Python and
  the document of the page as the script leaves it. With no container at all (\<open>main\<close> is
  null) the call \<open>main.querySelectorAll\<close> throws.
\<close>

definition extract_script :: "browser \<Rightarrow> document \<Rightarrow> string + (content \<times> document)" where
  "extract_script b d =
     (case select_main d of
        None \<Rightarrow> Inl ''TypeError: Cannot read properties of null''
      | Some p \<Rightarrow>
          (case node_at (root d) p of
             None \<Rightarrow> Inl ''TypeError: Cannot read properties of null''
           | Some main \<Rightarrow>
               let scripts = query_selector_all script_style main;
                   main' = remove_all scripts [] main;
                   d' = d\<lparr>root := replace_at (root d) p main'\<rparr>
               in Inr (\<lparr>text_field = inner_text b main', html_field = inner_html b main',
                         title_field = doc_title d'\<rparr>, d')))"

subsection \<open>Strings, JSON and the console\<close>

text \<open>\<open>url.split("/")\<close>: the pieces between the separators; never the empty list.\<close>

fun split_on :: "char \<Rightarrow> string \<Rightarrow> string list" where
  "split_on c [] = [[]]"
| "split_on c (x # xs) =
     (if x = c then [] # split_on c xs
      else (case split_on c xs of [] \<Rightarrow> [[x]] | w # ws \<Rightarrow> (x # w) # ws))"

definition page_name_of :: "string \<Rightarrow> string" where
  "page_name_of url = last (split_on CHR ''/'' url)"

definition output_file_of :: "string \<Rightarrow> string" where
  "output_file_of url = ''docs_scraped/'' @ page_name_of url @ ''.json''"

text \<open>
  \<open>json.dump(obj, f, indent=2, ensure_ascii=False)\<close> for a dictionary of strings. With
  \<open>ensure_ascii=False\<close> the encoder escapes only the backslash, the double quote and the
  control characters below \<open>0x20\<close> (the table \<open>ESCAPE_DCT\<close> of \<open>json.encoder\<close>); every
  other character is written as it is.
\<close>

definition backslash :: char where "backslash = CHR 0x5C"
definition dquote :: char where "dquote = CHR 0x22"
definition newline :: char where "newline = CHR 0x0A"

definition hex_digit :: "nat \<Rightarrow> char" where
  "hex_digit n = (if n < 10 then char_of (48 + n) else char_of (87 + n))"

definition escape_char :: "char \<Rightarrow> string" where
  "escape_char c =
     (if c = backslash then [backslash, backslash]
      else if c = dquote then [backslash, dquote]
      else if c = CHR 0x08 then [backslash, CHR ''b'']
      else if c = CHR 0x0C then [backslash, CHR ''f'']
      else if c = CHR 0x0A then [backslash, CHR ''n'']
      else if c = CHR 0x0D then [backslash, CHR ''r'']
      else if c = CHR 0x09 then [backslash, CHR ''t'']
      else if (of_char c :: nat) < 32
        then [backslash, CHR ''u'', CHR ''0'', CHR ''0'',
              hex_digit (of_char c div 16), hex_digit (of_char c mod 16)]
      else [c])"

definition py_encode_basestring :: "string \<Rightarrow> string" where
  "py_encode_basestring s = [dquote] @ concat (map escape_char s) @ [dquote]"

fun join :: "string \<Rightarrow> string list \<Rightarrow> string" where
  "join sep [] = []"
| "join sep [x] = x"
| "join sep (x # y # ys) = x @ sep @ join sep (y # ys)"

definition json_dump :: "nat \<Rightarrow> (string \<times> string) list \<Rightarrow> string" where
  "json_dump indent dct =
     (if dct = [] then ''{}''
      else
        let newline_indent = [newline] @ replicate indent CHR '' '';
            item_separator = '','' @ newline_indent
        in ''{'' @ newline_indent
           @ join item_separator
               (map (\<lambda>(k, v). py_encode_basestring k @ '': '' @ py_encode_basestring v) dct)
           @ [newline] @ ''}'')"

text \<open>\<open>str(n)\<close> of a natural number, for \<open>len(results)\<close> in the summary line.\<close>

fun str_nat :: "nat \<Rightarrow> string" where
  "str_nat n = (if n < 10 then [char_of (48 + n)] else str_nat (n div 10) @ [char_of (48 + n mod 10)])"

declare str_nat.simps [simp del]

text \<open>The marks of the progress lines, as UTF-8: U+2705 and U+274C.\<close>

definition ok_mark :: string where "ok_mark = [CHR 0xE2, CHR 0x9C, CHR 0x85]"
definition error_mark :: string where "error_mark = [CHR 0xE2, CHR 0x9D, CHR 0x8C]"

subsection \<open>The state of the run\<close>

text \<open>
  The files on disk (path to content), the lines printed so far (one entry per call of
  \<open>print\<close>), and whether \<open>browser.close()\<close> has been called.
\<close>

record sys =
  files :: "string \<rightharpoonup> string"
  out :: "string list"
  closed :: bool

definition print :: "string \<Rightarrow> sys \<Rightarrow> sys" where
  "print line s = s\<lparr>out := out s @ [line]\<rparr>"

text \<open>
  \<open>with open(path, 'w', encoding='utf-8') as f: ...\<close>. Opening either raises and leaves
  the disk alone, or creates the file, empty (an older file of that name is truncated).
  The write then either completes or raises after some prefix of the data has reached the
  file; leaving the \<open>with\<close> block closes the file in both cases and nothing removes it.
\<close>

definition write_file ::
    "string option \<Rightarrow> (nat \<times> string) option \<Rightarrow> string \<Rightarrow> string \<Rightarrow> sys \<Rightarrow> (string + unit) \<times> sys" where
  "write_file open_exc write_exc path data s =
     (case open_exc of
        Some e \<Rightarrow> (Inl e, s)
      | None \<Rightarrow>
          let s1 = s\<lparr>files := (files s)(path \<mapsto> [])\<rparr> in
          (case write_exc of
             Some (n, e) \<Rightarrow> (Inl e, s1\<lparr>files := (files s1)(path \<mapsto> take n data)\<rparr>)
           | None \<Rightarrow> (Inr (), s1\<lparr>files := (files s1)(path \<mapsto> data)\<rparr>)))"

subsection \<open>\<open>scrape_page\<close>\<close>

text \<open>What the world does when one URL of the fixed list is visited.\<close>

record attempt =
  goto_exc :: "string option"
  wait_for_selector_exc :: "string option"
  evaluate_exc :: "string option"
  page_document :: document
  open_exc :: "string option"
  write_exc :: "(nat \<times> string) option"

text \<open>\<open>page.evaluate\<close> of the extraction script: the call itself may fail, or the script may throw.\<close>

definition page_evaluate :: "browser \<Rightarrow> attempt \<Rightarrow> string + content" where
  "page_evaluate b a =
     (case evaluate_exc a of
        Some e \<Rightarrow> Inl e
      | None \<Rightarrow> (case extract_script b (page_document a) of Inl e \<Rightarrow> Inl e | Inr (c, d') \<Rightarrow> Inr c))"

text \<open>The body of the \<open>try\<close> block: \<open>Inl e\<close> when it raises \<open>e\<close>, \<open>Inr text\<close> when it returns.\<close>

definition try_body :: "browser \<Rightarrow> attempt \<Rightarrow> string \<Rightarrow> string \<Rightarrow> sys \<Rightarrow> (string + string) \<times> sys" where
  "try_body b a url output_file s =
     (case goto_exc a of
        Some e \<Rightarrow> (Inl e, s)
      | None \<Rightarrow>
     (case wait_for_selector_exc a of
        Some e \<Rightarrow> (Inl e, s)
      | None \<Rightarrow>
     (case page_evaluate b a of
        Inl e \<Rightarrow> (Inl e, s)
      | Inr c \<Rightarrow>
     (case write_file (open_exc a) (write_exc a) output_file
             (json_dump 2 [(''url'', url), (''title'', title_field c),
                           (''text'', text_field c), (''html'', html_field c)]) s of
        (Inl e, s1) \<Rightarrow> (Inl e, s1)
      | (Inr u, s1) \<Rightarrow> (Inr (text_field c), print (ok_mark @ '' Saved to '' @ output_file) s1)))))"

text \<open>\<open>scrape_page\<close> returns the text, or \<open>None\<close> from the handler of the \<open>try\<close>.\<close>

definition scrape_page :: "browser \<Rightarrow> attempt \<Rightarrow> string \<Rightarrow> string \<Rightarrow> sys \<Rightarrow> string option \<times> sys" where
  "scrape_page b a url output_file s =
     (case try_body b a url output_file (print (''Scraping: '' @ url) s) of
        (Inr t, s1) \<Rightarrow> (Some t, s1)
      | (Inl e, s1) \<Rightarrow> (None, print (error_mark @ '' Error scraping '' @ url @ '': '' @ e) s1))"

subsection \<open>\<open>main\<close>\<close>

definition DOCS_URLS :: "string list" where
  "DOCS_URLS =
     [''https://hyperping.com/docs/api/overview'',
      ''https://hyperping.com/docs/api/monitors'',
      ''https://hyperping.com/docs/api/statuspages'',
      ''https://hyperping.com/docs/api/maintenance'',
      ''https://hyperping.com/docs/api/incidents'',
      ''https://hyperping.com/docs/api/outages'',
      ''https://hyperping.com/docs/api/healthchecks'',
      ''https://hyperping.com/docs/api/reports'']"

text \<open>The dictionary \<open>results\<close>, in insertion order; \<open>results[k] = v\<close> overwrites or appends.\<close>

type_synonym dict = "(string \<times> string) list"

fun dict_set :: "string \<Rightarrow> string \<Rightarrow> dict \<Rightarrow> dict" where
  "dict_set k v [] = [(k, v)]"
| "dict_set k v ((k', v') # d) = (if k = k' then (k, v) # d else (k', v') # dict_set k v d)"

text \<open>
  One turn of the \<open>for\<close> loop, and the loop. The test \<open>if content:\<close> on the value
  returned by \<open>scrape_page\<close> is false for \<open>None\<close> and for the empty string.
\<close>

definition visit :: "browser \<Rightarrow> (string \<Rightarrow> attempt) \<Rightarrow> string \<Rightarrow> dict \<times> sys \<Rightarrow> dict \<times> sys" where
  "visit b w url rs =
     (let page_name = page_name_of url;
          output_file = output_file_of url;
          (content, s1) = scrape_page b (w url) url output_file (snd rs)
      in (case content of
            None \<Rightarrow> (fst rs, s1)
          | Some t \<Rightarrow> (if t = [] then fst rs else dict_set page_name t (fst rs), s1)))"

fun scrape_each :: "browser \<Rightarrow> (string \<Rightarrow> attempt) \<Rightarrow> string list \<Rightarrow> dict \<times> sys \<Rightarrow> dict \<times> sys" where
  "scrape_each b w [] rs = rs"
| "scrape_each b w (url # urls) rs = scrape_each b w urls (visit b w url rs)"

text \<open>What the world does when the trailing Notion page is visited.\<close>

record notion_attempt =
  notion_goto_exc :: "string option"
  notion_timeout_exc :: "string option"
  notion_evaluate_exc :: "string option"
  notion_document :: document
  notion_open_exc :: "string option"
  notion_write_exc :: "(nat \<times> string) option"

text \<open>\<open>page.evaluate("document.body.innerText")\<close>; it throws when there is no body.\<close>

definition notion_evaluate :: "browser \<Rightarrow> notion_attempt \<Rightarrow> string + string" where
  "notion_evaluate b a =
     (case notion_evaluate_exc a of
        Some e \<Rightarrow> Inl e
      | None \<Rightarrow>
          (case document_body (notion_document a) of
             None \<Rightarrow> Inl ''TypeError: Cannot read properties of null''
           | Some p \<Rightarrow>
               (case node_at (root (notion_document a)) p of
                  None \<Rightarrow> Inl ''TypeError: Cannot read properties of null''
                | Some body \<Rightarrow> Inr (inner_text b body))))"

text \<open>The unguarded visit of the Notion page, up to the end of its \<open>with\<close> block.\<close>

definition scrape_notion :: "browser \<Rightarrow> notion_attempt \<Rightarrow> sys \<Rightarrow> (string + unit) \<times> sys" where
  "scrape_notion b a s =
     (case notion_goto_exc a of
        Some e \<Rightarrow> (Inl e, s)
      | None \<Rightarrow>
     (case notion_timeout_exc a of
        Some e \<Rightarrow> (Inl e, s)
      | None \<Rightarrow>
     (case notion_evaluate b a of
        Inl e \<Rightarrow> (Inl e, s)
      | Inr notion_content \<Rightarrow>
          write_file (notion_open_exc a) (notion_write_exc a)
            ''docs_scraped/notion_api_docs.txt'' notion_content s)))"

record world =
  fixed_list :: "string \<Rightarrow> attempt"
  notion :: notion_attempt

text \<open>
  \<open>main\<close>: \<open>Inl e\<close> when the exception \<open>e\<close> leaves it, \<open>Inr results\<close> when it returns
  (the dictionary is returned for reference; the source discards it).
\<close>

definition main :: "browser \<Rightarrow> world \<Rightarrow> sys \<Rightarrow> (string + dict) \<times> sys" where
  "main b w s =
     (let (results, s1) = scrape_each b (fixed_list w) DOCS_URLS ([], s);
          s2 = print ([newline] @ ''Scraping Notion page...'') s1
      in (case scrape_notion b (notion w) s2 of
            (Inl e, s3) \<Rightarrow> (Inl e, s3)
          | (Inr u, s3) \<Rightarrow>
              let s4 = print (ok_mark @ '' Saved Notion docs to docs_scraped/notion_api_docs.txt'') s3;
                  s5 = s4\<lparr>closed := True\<rparr>;
                  s6 = print ([newline] @ replicate 60 CHR ''='') s5;
                  s7 = print (''Scraped '' @ str_nat (length results) @ '' pages successfully'') s6;
                  s8 = print ''Output directory: ./docs_scraped/'' s7;
                  s9 = print (replicate 60 CHR ''='') s8
              in (Inr results, s9)))"

text \<open>
  The script run as a program, from the files \<open>fs\<close> already on disk: the exit status is 0
  when \<open>asyncio.run(main())\<close> returns and 1 when an exception leaves it.
\<close>

definition start :: "(string \<rightharpoonup> string) \<Rightarrow> sys" where
  "start fs = \<lparr>files = fs, out = [], closed = False\<rparr>"

definition exit_code :: "browser \<Rightarrow> world \<Rightarrow> (string \<rightharpoonup> string) \<Rightarrow> nat" where
  "exit_code b w fs = (case fst (main b w (start fs)) of Inl e \<Rightarrow> 1 | Inr r \<Rightarrow> 0)"

section \<open>Reading the model\<close>

subsection \<open>What one visit amounts to\<close>

text \<open>
  Steps 2 to 4 of a visit (navigation, selector wait, extraction), and the three ways a
  visit of a fixed-list URL can end: it raised before anything was written (\<open>Failed\<close>,
  which includes a failing \<open>open\<close>), it raised while writing the opened file after \<open>n\<close>
  characters (\<open>Partial\<close>), or it went through (\<open>Saved\<close>).
\<close>

datatype outcome = Failed string | Partial nat string content | Saved content

definition steps :: "browser \<Rightarrow> attempt \<Rightarrow> string + content" where
  "steps b a =
     (case goto_exc a of
        Some e \<Rightarrow> Inl e
      | None \<Rightarrow> (case wait_for_selector_exc a of Some e \<Rightarrow> Inl e | None \<Rightarrow> page_evaluate b a))"

definition outcome_of :: "browser \<Rightarrow> attempt \<Rightarrow> outcome" where
  "outcome_of b a =
     (case steps b a of
        Inl e \<Rightarrow> Failed e
      | Inr c \<Rightarrow>
          (case open_exc a of
             Some e \<Rightarrow> Failed e
           | None \<Rightarrow> (case write_exc a of Some (n, e) \<Rightarrow> Partial n e c | None \<Rightarrow> Saved c)))"

fun failure_of :: "outcome \<Rightarrow> string option" where
  "failure_of (Failed e) = Some e"
| "failure_of (Partial n e c) = Some e"
| "failure_of (Saved c) = None"

fun succeeded :: "outcome \<Rightarrow> bool" where
  "succeeded (Failed e) = False"
| "succeeded (Partial n e c) = False"
| "succeeded (Saved c) = True"

text \<open>The visit put an entry into \<open>results\<close>.\<close>

fun recorded :: "outcome \<Rightarrow> bool" where
  "recorded (Failed e) = False"
| "recorded (Partial n e c) = False"
| "recorded (Saved c) = (text_field c \<noteq> [])"

definition json_of :: "string \<Rightarrow> content \<Rightarrow> string" where
  "json_of url c =
     json_dump 2 [(''url'', url), (''title'', title_field c),
                  (''text'', text_field c), (''html'', html_field c)]"

definition error_line :: "string \<Rightarrow> string \<Rightarrow> string" where
  "error_line url e = error_mark @ '' Error scraping '' @ url @ '': '' @ e"

definition is_error_line :: "string \<Rightarrow> bool" where
  "is_error_line l = (take 3 l = error_mark)"

text \<open>The file at the URL's path, the lines printed and the entry recorded, by outcome.\<close>

fun file_after :: "string \<Rightarrow> outcome \<Rightarrow> string option \<Rightarrow> string option" where
  "file_after url (Failed e) old = old"
| "file_after url (Partial n e c) old = Some (take n (json_of url c))"
| "file_after url (Saved c) old = Some (json_of url c)"

fun lines_of :: "string \<Rightarrow> outcome \<Rightarrow> string list" where
  "lines_of url (Failed e) = [''Scraping: '' @ url, error_line url e]"
| "lines_of url (Partial n e c) = [''Scraping: '' @ url, error_line url e]"
| "lines_of url (Saved c) = [''Scraping: '' @ url, ok_mark @ '' Saved to '' @ output_file_of url]"

fun entry_of :: "string \<Rightarrow> outcome \<Rightarrow> (string \<times> string) option" where
  "entry_of url (Failed e) = None"
| "entry_of url (Partial n e c) = None"
| "entry_of url (Saved c) =
     (if text_field c = [] then None else Some (page_name_of url, text_field c))"

text \<open>The same for the Notion page.\<close>

datatype notion_outcome =
  Notion_failed string | Notion_partial nat string string | Notion_saved string

definition notion_outcome_of :: "browser \<Rightarrow> notion_attempt \<Rightarrow> notion_outcome" where
  "notion_outcome_of b a =
     (case notion_goto_exc a of
        Some e \<Rightarrow> Notion_failed e
      | None \<Rightarrow>
     (case notion_timeout_exc a of
        Some e \<Rightarrow> Notion_failed e
      | None \<Rightarrow>
     (case notion_evaluate b a of
        Inl e \<Rightarrow> Notion_failed e
      | Inr t \<Rightarrow>
     (case notion_open_exc a of
        Some e \<Rightarrow> Notion_failed e
      | None \<Rightarrow>
     (case notion_write_exc a of
        Some (n, e) \<Rightarrow> Notion_partial n e t
      | None \<Rightarrow> Notion_saved t)))))"

fun notion_failure :: "notion_outcome \<Rightarrow> string option" where
  "notion_failure (Notion_failed e) = Some e"
| "notion_failure (Notion_partial n e t) = Some e"
| "notion_failure (Notion_saved t) = None"

fun notion_file_after :: "notion_outcome \<Rightarrow> string option \<Rightarrow> string option" where
  "notion_file_after (Notion_failed e) old = old"
| "notion_file_after (Notion_partial n e t) old = Some (take n t)"
| "notion_file_after (Notion_saved t) old = Some t"

definition notion_file :: string where
  "notion_file = ''docs_scraped/notion_api_docs.txt''"

definition notion_line :: string where
  "notion_line = [newline] @ ''Scraping Notion page...''"

definition summary_line :: "nat \<Rightarrow> string" where
  "summary_line n = ''Scraped '' @ str_nat n @ '' pages successfully''"

text \<open>The state and the dictionary \<open>results\<close> when the \<open>for\<close> loop is done.\<close>

definition after_loop :: "browser \<Rightarrow> world \<Rightarrow> (string \<rightharpoonup> string) \<Rightarrow> dict \<times> sys" where
  "after_loop b w fs = scrape_each b (fixed_list w) DOCS_URLS ([], start fs)"

subsection \<open>The extraction, as the specification words it\<close>

text \<open>
  The container: the candidates in priority order, the first one found wins, the body
  is the default.
\<close>

definition priority_choice :: "document \<Rightarrow> path option" where
  "priority_choice d =
     (case List.find (\<lambda>c. c \<noteq> None)
             [query_selector [Tag ''main''] d, query_selector [Tag ''article''] d,
              query_selector [Class ''documentation''] d,
              query_selector [Class ''notion-page-content''] d] of
        Some c \<Rightarrow> c
      | None \<Rightarrow> document_body d)"

text \<open>A node without the descendants that match a selector.\<close>

fun strip :: "selector \<Rightarrow> node \<Rightarrow> node" where
  "strip sel (Text x) = Text x"
| "strip sel (Element t cs ks) =
     Element t cs (map (strip sel) (filter (\<lambda>k. \<not> matches sel k) ks))"

subsection \<open>Sample browser, pages and worlds\<close>

fun text_of :: "node \<Rightarrow> string" where
  "text_of (Text x) = x"
| "text_of (Element t cs ks) =
     (if t = ''script'' \<or> t = ''style'' then [] else concat (map text_of ks))"

fun markup_of :: "node \<Rightarrow> string" where
  "markup_of (Text x) = x"
| "markup_of (Element t cs ks) = ''<'' @ t @ ''>'' @ concat (map markup_of ks) @ ''</'' @ t @ ''>''"

fun children_of :: "node \<Rightarrow> node list" where
  "children_of (Text x) = []"
| "children_of (Element t cs ks) = ks"

definition sample_browser :: browser where
  "sample_browser =
     \<lparr>inner_text = text_of, inner_html = (\<lambda>n. concat (map markup_of (children_of n)))\<rparr>"

text \<open>A title with two characters beyond ASCII (U+00E9, as UTF-8).\<close>

definition sample_title :: string where
  "sample_title = ''API r'' @ [CHR 0xC3, CHR 0xA9] @ ''f'' @ [CHR 0xC3, CHR 0xA9] @ ''rence''"

definition sample_page :: document where
  "sample_page =
     \<lparr>root = Element ''html'' []
        [Element ''head'' [] [],
         Element ''body'' []
           [Element ''main'' []
              [Element ''script'' [] [Text ''track()''],
               Element ''p'' [] [Text ''Monitors'']]]],
      doc_title = sample_title\<rparr>"

definition picture_page :: document where
  "picture_page =
     \<lparr>root = Element ''html'' []
        [Element ''head'' [] [],
         Element ''body'' [] [Element ''main'' [] [Element ''img'' [] []]]],
      doc_title = sample_title\<rparr>"

text \<open>What the extraction script returns on \<open>sample_page\<close>.\<close>

definition sample_content :: content where
  "sample_content =
     \<lparr>text_field = ''Monitors'', html_field = ''<p>Monitors</p>'', title_field = sample_title\<rparr>"

definition ok_attempt :: attempt where
  "ok_attempt =
     \<lparr>goto_exc = None, wait_for_selector_exc = None, evaluate_exc = None,
      page_document = sample_page, open_exc = None, write_exc = None\<rparr>"

definition ok_notion :: notion_attempt where
  "ok_notion =
     \<lparr>notion_goto_exc = None, notion_timeout_exc = None, notion_evaluate_exc = None,
      notion_document = sample_page, notion_open_exc = None, notion_write_exc = None\<rparr>"

definition statuspages_url :: string where
  "statuspages_url = ''https://hyperping.com/docs/api/statuspages''"

definition overview_url :: string where
  "overview_url = ''https://hyperping.com/docs/api/overview''"

text \<open>Every page and the Notion page go through.\<close>

definition all_ok_world :: world where
  "all_ok_world = \<lparr>fixed_list = (\<lambda>u. ok_attempt), notion = ok_notion\<rparr>"

text \<open>The third entry times out at navigation.\<close>

definition nav_timeout_world :: world where
  "nav_timeout_world =
     \<lparr>fixed_list = (\<lambda>u. if u = statuspages_url
                          then ok_attempt\<lparr>goto_exc := Some ''Timeout 30000ms exceeded.''\<rparr>
                          else ok_attempt),
      notion = ok_notion\<rparr>"

text \<open>The disk fills up while the third entry's file is written.\<close>

definition disk_full_world :: world where
  "disk_full_world =
     \<lparr>fixed_list = (\<lambda>u. if u = statuspages_url
                          then ok_attempt\<lparr>write_exc := Some (20, ''No space left on device'')\<rparr>
                          else ok_attempt),
      notion = ok_notion\<rparr>"

text \<open>The first entry's file cannot be opened.\<close>

definition open_denied_world :: world where
  "open_denied_world =
     \<lparr>fixed_list = (\<lambda>u. if u = overview_url
                          then ok_attempt\<lparr>open_exc := Some ''Permission denied''\<rparr>
                          else ok_attempt),
      notion = ok_notion\<rparr>"

text \<open>The first entry's container shows a picture and no text.\<close>

definition picture_world :: world where
  "picture_world =
     \<lparr>fixed_list = (\<lambda>u. if u = overview_url
                          then ok_attempt\<lparr>page_document := picture_page\<rparr>
                          else ok_attempt),
      notion = ok_notion\<rparr>"

text \<open>Every navigation of the fixed list times out.\<close>

definition all_down_world :: world where
  "all_down_world =
     \<lparr>fixed_list = (\<lambda>u. ok_attempt\<lparr>goto_exc := Some ''Timeout 30000ms exceeded.''\<rparr>),
      notion = ok_notion\<rparr>"

text \<open>The Notion page times out at navigation; the disk fills up while its file is written.\<close>

definition notion_down_world :: world where
  "notion_down_world =
     \<lparr>fixed_list = (\<lambda>u. ok_attempt),
      notion = ok_notion\<lparr>notion_goto_exc := Some ''Timeout 30000ms exceeded.''\<rparr>\<rparr>"

definition notion_disk_full_world :: world where
  "notion_disk_full_world =
     \<lparr>fixed_list = (\<lambda>u. ok_attempt),
      notion = ok_notion\<lparr>notion_write_exc := Some (3, ''No space left on device'')\<rparr>\<rparr>"

section \<open>Lemmas\<close>

subsection \<open>The loop\<close>

lemma scrape_page_outcome:
  "scrape_page b a url f s =
     (case outcome_of b a of
        Failed e \<Rightarrow> (None, s\<lparr>out := out s @ [''Scraping: '' @ url, error_line url e]\<rparr>)
      | Partial n e c \<Rightarrow>
          (None, s\<lparr>files := (files s)(f \<mapsto> take n (json_of url c)),
                    out := out s @ [''Scraping: '' @ url, error_line url e]\<rparr>)
      | Saved c \<Rightarrow>
          (Some (text_field c),
           s\<lparr>files := (files s)(f \<mapsto> json_of url c),
             out := out s @ [''Scraping: '' @ url, ok_mark @ '' Saved to '' @ f]\<rparr>))"
  by (simp add: scrape_page_def try_body_def outcome_of_def steps_def write_file_def print_def
      json_of_def error_line_def split: option.splits sum.splits prod.splits)

lemma dict_set_fresh: "k \<notin> fst ` set d \<Longrightarrow> dict_set k v d = d @ [(k, v)]"
  by (induction d) auto

lemma visit_eq:
  "visit b w url (r, s) =
     ((case entry_of url (outcome_of b (w url)) of None \<Rightarrow> r | Some (k, v) \<Rightarrow> dict_set k v r),
      s\<lparr>files := (files s)(output_file_of url := file_after url (outcome_of b (w url)) (files s (output_file_of url))),
        out := out s @ lines_of url (outcome_of b (w url))\<rparr>)"
  by (cases "outcome_of b (w url)") (simp_all add: visit_def scrape_page_outcome Let_def)

lemma scrape_each_out:
  "out (snd (scrape_each b w urls (r, s))) =
     out s @ concat (map (\<lambda>u. lines_of u (outcome_of b (w u))) urls)"
  by (induction urls arbitrary: r s) (simp_all add: visit_eq)

lemma scrape_each_closed: "closed (snd (scrape_each b w urls (r, s))) = closed s"
  by (induction urls arbitrary: r s) (simp_all add: visit_eq)

lemma scrape_each_files_other:
  "f \<notin> output_file_of ` set urls \<Longrightarrow> files (snd (scrape_each b w urls (r, s))) f = files s f"
  by (induction urls arbitrary: r s) (simp_all add: visit_eq)

lemma scrape_each_files:
  "distinct (map output_file_of urls) \<Longrightarrow> u \<in> set urls \<Longrightarrow>
   files (snd (scrape_each b w urls (r, s))) (output_file_of u) =
     file_after u (outcome_of b (w u)) (files s (output_file_of u))"
proof (induction urls arbitrary: r s)
  case Nil
  then show ?case by simp
next
  case (Cons v urls)
  show ?case
  proof (cases "u = v")
    case True
    with Cons.prems have "output_file_of u \<notin> output_file_of ` set urls" by auto
    then show ?thesis using True by (simp add: visit_eq scrape_each_files_other)
  next
    case False
    with Cons.prems have "u \<in> set urls" "output_file_of v \<noteq> output_file_of u" by auto
    then show ?thesis using Cons.prems Cons.IH by (simp add: visit_eq)
  qed
qed

lemma scrape_each_results:
  "distinct (map page_name_of urls) \<Longrightarrow> fst ` set r \<inter> page_name_of ` set urls = {} \<Longrightarrow>
   fst (scrape_each b w urls (r, s)) =
     r @ List.map_filter (\<lambda>u. entry_of u (outcome_of b (w u))) urls"
proof (induction urls arbitrary: r s)
  case Nil
  then show ?case by (simp add:)
next
  case (Cons v urls)
  show ?case
  proof (cases "entry_of v (outcome_of b (w v))")
    case None
    then show ?thesis using Cons by (simp add: visit_eq)
  next
    case (Some kv)
    obtain k x where kv: "kv = (k, x)" by (cases kv)
    have k: "k = page_name_of v"
      using Some kv by (cases "outcome_of b (w v)") (auto split: if_splits)
    have fresh: "k \<notin> fst ` set r" using Cons.prems k by auto
    have "fst ` set (r @ [(k, x)]) \<inter> page_name_of ` set urls = {}"
      using Cons.prems k by auto
    then show ?thesis using Cons Some kv fresh
      by (simp add: visit_eq dict_set_fresh)
  qed
qed

subsection \<open>The document\<close>

lemma matches_Text [simp]: "matches sel (Text x) = False"
  by (induction sel) (simp_all add: matches_def)

lemma paths_in_mem:
  "q' \<in> set (paths_in sel p n) \<longleftrightarrow>
     (\<exists>q m. q' = p @ q \<and> node_at n q = Some m \<and> matches sel m)"
  "q' \<in> set (paths_in_list sel p i ks) \<longleftrightarrow>
     (\<exists>j q m. j < length ks \<and> q' = p @ (i + j) # q \<and> node_at (ks ! j) q = Some m \<and> matches sel m)"
proof (induction sel p n and sel p i ks arbitrary: q' and q' rule: paths_in_paths_in_list.induct)
  case (1 sel p x)
  show ?case
  proof
    assume "q' \<in> set (paths_in sel p (Text x))" then show "\<exists>q m. q' = p @ q \<and> node_at (Text x) q = Some m \<and> matches sel m" by simp
  next
    assume "\<exists>q m. q' = p @ q \<and> node_at (Text x) q = Some m \<and> matches sel m"
    then obtain q m where *: "node_at (Text x) q = Some m" "matches sel m" by blast
    then show "q' \<in> set (paths_in sel p (Text x))" by (cases q) auto
  qed
next
  case (2 sel p t cs ks)
  show ?case
  proof
    assume "q' \<in> set (paths_in sel p (Element t cs ks))"
    then consider "matches sel (Element t cs ks)" "q' = p" | "q' \<in> set (paths_in_list sel p 0 ks)"
      by (auto split: if_splits)
    then show "\<exists>q m. q' = p @ q \<and> node_at (Element t cs ks) q = Some m \<and> matches sel m"
    proof cases
      case 1
      then show ?thesis by (intro exI[of _ "[]"]) simp
    next
      case 2
      then obtain j q m where "j < length ks" "q' = p @ (0 + j) # q" "node_at (ks ! j) q = Some m" "matches sel m"
        using "2.IH" by blast
      then show ?thesis by (intro exI[of _ "j # q"]) simp
    qed
  next
    assume "\<exists>q m. q' = p @ q \<and> node_at (Element t cs ks) q = Some m \<and> matches sel m"
    then obtain q m where *: "q' = p @ q" "node_at (Element t cs ks) q = Some m" "matches sel m" by blast
    show "q' \<in> set (paths_in sel p (Element t cs ks))"
    proof (cases q)
      case Nil
      then have "m = Element t cs ks" "q' = p" using * by simp_all
      then show ?thesis using *(3) by simp
    next
      case (Cons j r)
      then have "j < length ks" "node_at (ks ! j) r = Some m" using * by (auto split: if_splits)
      then have "q' \<in> set (paths_in_list sel p 0 ks)" using * Cons "2.IH"[of q'] by auto
      then show ?thesis by simp
    qed
  qed
next
  case (3 sel p i)
  then show ?case by simp
next
  case (4 sel p i k ks)
  show ?case
  proof
    assume "q' \<in> set (paths_in_list sel p i (k # ks))"
    then consider "q' \<in> set (paths_in sel (p @ [i]) k)" | "q' \<in> set (paths_in_list sel p (Suc i) ks)"
      by auto
    then show "\<exists>j q m. j < length (k # ks) \<and> q' = p @ (i + j) # q \<and> node_at ((k # ks) ! j) q = Some m \<and> matches sel m"
    proof cases
      case 1
      then obtain q m where "q' = (p @ [i]) @ q" "node_at k q = Some m" "matches sel m"
        using "4.IH"(1) by blast
      then show ?thesis by (intro exI[of _ 0] exI[of _ q] exI[of _ m]) simp
    next
      case 2
      then obtain j q m where "j < length ks" "q' = p @ (Suc i + j) # q" "node_at (ks ! j) q = Some m" "matches sel m"
        using "4.IH"(2) by blast
      then show ?thesis by (intro exI[of _ "Suc j"] exI[of _ q] exI[of _ m]) simp
    qed
  next
    assume "\<exists>j q m. j < length (k # ks) \<and> q' = p @ (i + j) # q \<and> node_at ((k # ks) ! j) q = Some m \<and> matches sel m"
    then obtain j q m where *: "j < length (k # ks)" "q' = p @ (i + j) # q" "node_at ((k # ks) ! j) q = Some m" "matches sel m"
      by blast
    show "q' \<in> set (paths_in_list sel p i (k # ks))"
    proof (cases j)
      case 0
      then have "q' \<in> set (paths_in sel (p @ [i]) k)" using * "4.IH"(1)[of q'] by auto
      then show ?thesis by simp
    next
      case (Suc j')
      then have "q' \<in> set (paths_in_list sel p (Suc i) ks)" using * "4.IH"(2)[of q'] by auto
      then show ?thesis by simp
    qed
  qed
qed

lemma remove_all_strip:
  "(\<And>q m. q \<noteq> [] \<Longrightarrow> node_at n q = Some m \<Longrightarrow> (p @ q \<in> set S \<longleftrightarrow> matches sel m))
     \<Longrightarrow> remove_all S p n = strip sel n"
  "(\<And>j q m. j < length ks \<Longrightarrow> node_at (ks ! j) q = Some m \<Longrightarrow>
        (p @ (i + j) # q \<in> set S \<longleftrightarrow> matches sel m))
     \<Longrightarrow> remove_all_list S p i ks = map (strip sel) (filter (\<lambda>k. \<not> matches sel k) ks)"
proof (induction S p n and S p i ks rule: remove_all_remove_all_list.induct)
  case (1 S p x)
  then show ?case by simp
next
  case (2 S p t cs ks)
  have "remove_all_list S p 0 ks = map (strip sel) (filter (\<lambda>k. \<not> matches sel k) ks)"
  proof (rule "2.IH")
    fix j q m
    assume "j < length ks" "node_at (ks ! j) q = Some m"
    then show "(p @ (0 + j) # q \<in> set S) = matches sel m"
      using "2.prems"[of "j # q" m] by simp
  qed
  then show ?case by simp
next
  case (3 S p i)
  then show ?case by simp
next
  case (4 S p i k ks)
  have head: "(p @ [i] \<in> set S) = matches sel k"
    using "4.prems"[of 0 "[]" k] by simp
  have rest: "remove_all_list S p (Suc i) ks = map (strip sel) (filter (\<lambda>k. \<not> matches sel k) ks)"
  proof (rule "4.IH"(2))
    fix j q m
    assume "j < length ks" "node_at (ks ! j) q = Some m"
    then show "(p @ (Suc i + j) # q \<in> set S) = matches sel m"
      using "4.prems"[of "Suc j" q m] by simp
  qed
  show ?case
  proof (cases "matches sel k")
    case True
    then show ?thesis using head rest by simp
  next
    case False
    have "remove_all S (p @ [i]) k = strip sel k"
    proof (rule "4.IH"(1))
      show "p @ [i] \<notin> set S" using head False by simp
    next
      fix q m
      assume "q \<noteq> []" "node_at k q = Some m"
      then show "((p @ [i]) @ q \<in> set S) = matches sel m"
        using "4.prems"[of 0 q m] by simp
    qed
    then show ?thesis using head rest False by simp
  qed
qed

lemma remove_query_selector_all:
  "remove_all (query_selector_all sel n) [] n = strip sel n"
proof (cases n)
  case (Text x)
  then show ?thesis by simp
next
  case (Element t cs ks)
  have "remove_all (paths_in_list sel [] 0 ks) [] (Element t cs ks) = strip sel (Element t cs ks)"
  proof (rule remove_all_strip(1))
    fix q m
    assume q: "q \<noteq> []" and m: "node_at (Element t cs ks) q = Some m"
    then obtain j r where jr: "q = j # r" by (cases q) auto
    then have "j < length ks" "node_at (ks ! j) r = Some m" using m by (auto split: if_splits)
    then show "([] @ q \<in> set (paths_in_list sel [] 0 ks)) = matches sel m"
      using jr by (auto simp: paths_in_mem(2) split: if_splits)
  qed
  then show ?thesis using Element by simp
qed

lemma matches_simple_children:
  "matches_simple s (Element t cs ks') = matches_simple s (Element t cs ks)"
  by (cases s) simp_all

lemma matches_children: "matches sel (Element t cs ks') = matches sel (Element t cs ks)"
  by (induction sel) (simp_all add: matches_def matches_simple_children[of _ t cs ks' ks])

lemma paths_in_list_none:
  "(\<And>k p. k \<in> set ks \<Longrightarrow> paths_in sel p k = []) \<Longrightarrow> paths_in_list sel p i ks = []"
  by (induction ks arbitrary: i) simp_all

lemma paths_in_strip:
  "paths_in sel p (strip sel n) = (if matches sel n then [p] else [])"
proof (induction n arbitrary: p)
  case (Text x)
  then show ?case by simp
next
  case (Element t cs ks)
  have "paths_in_list sel p 0 (map (strip sel) (filter (\<lambda>k. \<not> matches sel k) ks)) = []"
    by (rule paths_in_list_none) (auto simp: Element.IH)
  then show ?case
    by (simp add: matches_children[of sel t cs "map (strip sel) (filter (\<lambda>k. \<not> matches sel k) ks)" ks])
qed

lemma paths_in_list_strip:
  "paths_in_list sel p i (map (strip sel) (filter (\<lambda>k. \<not> matches sel k) ks)) = []"
  by (rule paths_in_list_none) (auto simp: paths_in_strip)

lemma query_selector_all_strip: "query_selector_all sel (strip sel n) = []"
  by (cases n) (simp_all add: paths_in_list_strip)

lemma first_index_Some:
  "first_index P i xs = Some j \<Longrightarrow> i \<le> j \<and> j - i < length xs \<and> P (xs ! (j - i))"
proof (induction xs arbitrary: i)
  case Nil
  then show ?case by simp
next
  case (Cons x xs)
  show ?case
  proof (cases "P x")
    case True
    then show ?thesis using Cons.prems by simp
  next
    case False
    then have "first_index P (Suc i) xs = Some j" using Cons.prems by simp
    then have "Suc i \<le> j \<and> j - Suc i < length xs \<and> P (xs ! (j - Suc i))" by (rule Cons.IH)
    moreover from this have "j - i = Suc (j - Suc i)" by arith
    ultimately show ?thesis by simp
  qed
qed

lemma query_selector_Some:
  assumes "query_selector sel d = Some p"
  shows "\<exists>t cs ks. node_at (root d) p = Some (Element t cs ks) \<and> matches sel (Element t cs ks)"
proof -
  from assms have "p \<in> set (paths_in sel [] (root d))"
    by (auto simp: query_selector_def split: list.splits)
  then obtain m where m: "node_at (root d) p = Some m" "matches sel m"
    by (auto simp: paths_in_mem(1))
  then show ?thesis by (cases m) auto
qed

lemma document_body_Some:
  assumes "document_body d = Some p"
  shows "\<exists>t cs ks. node_at (root d) p = Some (Element t cs ks)"
proof -
  from assms obtain t cs ks i where r: "root d = Element t cs ks" "first_index is_body 0 ks = Some i" "p = [i]"
    by (auto split: node.splits if_splits)
  from first_index_Some[OF r(2)] have "i < length ks" "is_body (ks ! i)" by auto
  then show ?thesis using r by (cases "ks ! i") auto
qed

lemma select_main_Some:
  assumes "select_main d = Some p"
  shows "\<exists>t cs ks. node_at (root d) p = Some (Element t cs ks)"
proof -
  from assms consider sel where "query_selector sel d = Some p" | "document_body d = Some p"
    unfolding select_main_def or_else_def by (auto split: option.splits)
  then show ?thesis
  proof cases
    case 1
    then show ?thesis using query_selector_Some by blast
  next
    case 2
    then show ?thesis by (rule document_body_Some)
  qed
qed

subsection \<open>The run\<close>

lemma page_names:
  "map page_name_of DOCS_URLS =
     [''overview'', ''monitors'', ''statuspages'', ''maintenance'',
      ''incidents'', ''outages'', ''healthchecks'', ''reports'']"
  by (simp add: DOCS_URLS_def page_name_of_def)

lemma distinct_page_names: "distinct (map page_name_of DOCS_URLS)"
  by (simp add: page_names)

lemma output_files:
  "map output_file_of DOCS_URLS =
     [''docs_scraped/overview.json'', ''docs_scraped/monitors.json'',
      ''docs_scraped/statuspages.json'', ''docs_scraped/maintenance.json'',
      ''docs_scraped/incidents.json'', ''docs_scraped/outages.json'',
      ''docs_scraped/healthchecks.json'', ''docs_scraped/reports.json'']"
  using page_names by (simp add: output_file_of_def DOCS_URLS_def)

lemma distinct_output_files: "distinct (map output_file_of DOCS_URLS)"
  by (simp add: output_files)

lemma notion_file_not_output: "notion_file \<notin> output_file_of ` set DOCS_URLS"
proof -
  have "notion_file \<notin> set (map output_file_of DOCS_URLS)"
    unfolding output_files by (simp add: notion_file_def)
  then show ?thesis by simp
qed

lemma length_DOCS_URLS: "length DOCS_URLS = 8"
  by (simp add: DOCS_URLS_def)

lemma scrape_notion_outcome:
  "scrape_notion b a s =
     (case notion_outcome_of b a of
        Notion_failed e \<Rightarrow> (Inl e, s)
      | Notion_partial n e t \<Rightarrow> (Inl e, s\<lparr>files := (files s)(notion_file \<mapsto> take n t)\<rparr>)
      | Notion_saved t \<Rightarrow> (Inr (), s\<lparr>files := (files s)(notion_file \<mapsto> t)\<rparr>))"
  by (simp add: scrape_notion_def notion_outcome_of_def write_file_def notion_file_def
      split: option.splits sum.splits prod.splits)

lemma main_outcome:
  "main b w (start fs) =
     (let L = after_loop b w fs;
          s2 = (snd L)\<lparr>out := out (snd L) @ [notion_line]\<rparr>
      in case notion_outcome_of b (notion w) of
           Notion_failed e \<Rightarrow> (Inl e, s2)
         | Notion_partial n e t \<Rightarrow> (Inl e, s2\<lparr>files := (files s2)(notion_file \<mapsto> take n t)\<rparr>)
         | Notion_saved t \<Rightarrow>
             (Inr (fst L),
              s2\<lparr>files := (files s2)(notion_file \<mapsto> t),
                 out := out s2 @
                   [ok_mark @ '' Saved Notion docs to docs_scraped/notion_api_docs.txt'',
                    [newline] @ replicate 60 CHR ''='',
                    summary_line (length (fst L)),
                    ''Output directory: ./docs_scraped/'',
                    replicate 60 CHR ''=''],
                 closed := True\<rparr>))"
  by (cases "notion_outcome_of b (notion w)")
     (simp_all add: main_def after_loop_def scrape_notion_outcome print_def notion_line_def
        summary_line_def Let_def split: prod.splits)

lemma main_fst:
  "fst (main b w (start fs)) =
     (case notion_failure (notion_outcome_of b (notion w)) of
        Some e \<Rightarrow> Inl e | None \<Rightarrow> Inr (fst (after_loop b w fs)))"
  by (cases "notion_outcome_of b (notion w)") (simp_all add: main_outcome Let_def)

lemma main_files:
  "files (snd (main b w (start fs))) =
     (files (snd (after_loop b w fs)))
       (notion_file := notion_file_after (notion_outcome_of b (notion w))
                         (files (snd (after_loop b w fs)) notion_file))"
  by (cases "notion_outcome_of b (notion w)") (simp_all add: main_outcome Let_def)

lemma after_loop_out:
  "out (snd (after_loop b w fs)) =
     concat (map (\<lambda>u. lines_of u (outcome_of b (fixed_list w u))) DOCS_URLS)"
  by (simp add: after_loop_def scrape_each_out start_def)

lemma after_loop_closed: "\<not> closed (snd (after_loop b w fs))"
  by (simp add: after_loop_def scrape_each_closed start_def)

lemma after_loop_files:
  "u \<in> set DOCS_URLS \<Longrightarrow>
   files (snd (after_loop b w fs)) (output_file_of u) =
     file_after u (outcome_of b (fixed_list w u)) (fs (output_file_of u))"
  by (simp add: after_loop_def scrape_each_files distinct_output_files start_def)

lemma after_loop_files_other:
  "f \<notin> output_file_of ` set DOCS_URLS \<Longrightarrow> files (snd (after_loop b w fs)) f = fs f"
  by (simp add: after_loop_def scrape_each_files_other start_def)

lemma after_loop_results:
  "fst (after_loop b w fs) =
     List.map_filter (\<lambda>u. entry_of u (outcome_of b (fixed_list w u))) DOCS_URLS"
  by (simp add: after_loop_def scrape_each_results distinct_page_names)

lemma main_files_url:
  assumes "u \<in> set DOCS_URLS"
  shows "files (snd (main b w (start fs))) (output_file_of u) =
           file_after u (outcome_of b (fixed_list w u)) (fs (output_file_of u))"
proof -
  have "output_file_of u \<in> output_file_of ` set DOCS_URLS" using assms by (rule imageI)
  then have "output_file_of u \<noteq> notion_file" using notion_file_not_output by metis
  then show ?thesis by (simp add: main_files after_loop_files assms)
qed

lemma main_files_notion:
  "files (snd (main b w (start fs))) notion_file =
     notion_file_after (notion_outcome_of b (notion w)) (fs notion_file)"
  by (simp add: main_files after_loop_files_other notion_file_not_output)

subsection \<open>The extraction script and the sample pages\<close>

lemma select_main_priority: "select_main d = priority_choice d"
  by (simp add: select_main_def priority_choice_def or_else_def split: option.splits)

lemma extract_script_eq:
  "extract_script b d =
     (case priority_choice d of
        None \<Rightarrow> Inl ''TypeError: Cannot read properties of null''
      | Some p \<Rightarrow>
          (case node_at (root d) p of
             None \<Rightarrow> Inl ''TypeError: Cannot read properties of null''
           | Some m \<Rightarrow>
               Inr (\<lparr>text_field = inner_text b (strip script_style m),
                     html_field = inner_html b (strip script_style m),
                     title_field = doc_title d\<rparr>,
                    d\<lparr>root := replace_at (root d) p (strip script_style m)\<rparr>)))"
  by (simp add: extract_script_def select_main_priority remove_query_selector_all Let_def
      split: option.splits)

lemma priority_choice_Some:
  "priority_choice d = Some p \<Longrightarrow> \<exists>t cs ks. node_at (root d) p = Some (Element t cs ks)"
  using select_main_Some by (simp add: select_main_priority)

lemma query_selector_None:
  "query_selector sel d = None \<longleftrightarrow> (\<forall>q m. node_at (root d) q = Some m \<longrightarrow> \<not> matches sel m)"
proof -
  have "query_selector sel d = None \<longleftrightarrow> set (paths_in sel [] (root d)) = {}"
    by (simp add: query_selector_def split: list.splits)
  also have "\<dots> \<longleftrightarrow> (\<forall>q m. node_at (root d) q = Some m \<longrightarrow> \<not> matches sel m)"
  proof
    assume e: "set (paths_in sel [] (root d)) = {}"
    show "\<forall>q m. node_at (root d) q = Some m \<longrightarrow> \<not> matches sel m"
    proof (intro allI impI notI)
      fix q m
      assume "node_at (root d) q = Some m" "matches sel m"
      then have "q \<in> set (paths_in sel [] (root d))" by (auto simp: paths_in_mem(1))
      then show False using e by simp
    qed
  next
    assume a: "\<forall>q m. node_at (root d) q = Some m \<longrightarrow> \<not> matches sel m"
    show "set (paths_in sel [] (root d)) = {}"
    proof (rule ccontr)
      assume "set (paths_in sel [] (root d)) \<noteq> {}"
      then obtain q qs where "paths_in sel [] (root d) = q # qs"
        by (cases "paths_in sel [] (root d)") auto
      then have "q \<in> set (paths_in sel [] (root d))" by simp
      then obtain m where "node_at (root d) q = Some m" "matches sel m"
        by (auto simp: paths_in_mem(1))
      then show False using a by blast
    qed
  qed
  finally show ?thesis .
qed

lemma sample_extract:
  "extract_script sample_browser sample_page =
     Inr (\<lparr>text_field = ''Monitors'', html_field = ''<p>Monitors</p>'', title_field = sample_title\<rparr>,
          sample_page\<lparr>root := Element ''html'' []
            [Element ''head'' [] [],
             Element ''body'' [] [Element ''main'' [] [Element ''p'' [] [Text ''Monitors'']]]]\<rparr>)"
  by (simp add: extract_script_def select_main_def or_else_def query_selector_def matches_def
      script_style_def sample_browser_def sample_page_def)

lemma picture_extract:
  "extract_script sample_browser picture_page =
     Inr (\<lparr>text_field = [], html_field = ''<img></img>'', title_field = sample_title\<rparr>, picture_page)"
  by (simp add: extract_script_def select_main_def or_else_def query_selector_def matches_def
      script_style_def sample_browser_def picture_page_def)

lemma ok_outcome: "outcome_of sample_browser ok_attempt = Saved sample_content"
  by (simp add: outcome_of_def steps_def page_evaluate_def ok_attempt_def sample_extract sample_content_def)

lemma ok_notion_outcome: "notion_outcome_of sample_browser ok_notion = Notion_saved ''Monitors''"
  by (simp add: notion_outcome_of_def notion_evaluate_def ok_notion_def sample_page_def
      sample_browser_def)

lemma goto_outcome: "outcome_of b (a\<lparr>goto_exc := Some e\<rparr>) = Failed e"
  by (simp add: outcome_of_def steps_def)

lemma write_ok_outcome:
  "outcome_of sample_browser (ok_attempt\<lparr>write_exc := Some (n, e)\<rparr>) = Partial n e sample_content"
  by (simp add: outcome_of_def steps_def page_evaluate_def ok_attempt_def sample_extract sample_content_def)

lemma open_ok_outcome:
  "outcome_of sample_browser (ok_attempt\<lparr>open_exc := Some e\<rparr>) = Failed e"
  by (simp add: outcome_of_def steps_def page_evaluate_def ok_attempt_def sample_extract)

lemma picture_outcome:
  "outcome_of sample_browser (ok_attempt\<lparr>page_document := picture_page\<rparr>) =
     Saved \<lparr>text_field = [], html_field = ''<img></img>'', title_field = sample_title\<rparr>"
  by (simp add: outcome_of_def steps_def page_evaluate_def ok_attempt_def picture_extract)

lemma notion_goto_outcome:
  "notion_outcome_of b (a\<lparr>notion_goto_exc := Some e\<rparr>) = Notion_failed e"
  by (simp add: notion_outcome_of_def)

lemma notion_write_outcome:
  "notion_outcome_of sample_browser (ok_notion\<lparr>notion_write_exc := Some (n, e)\<rparr>) =
     Notion_partial n e ''Monitors''"
  by (simp add: notion_outcome_of_def notion_evaluate_def ok_notion_def sample_page_def
      sample_browser_def)

subsection \<open>The lines of the console\<close>

lemma rule_head: "replicate 60 c = c # replicate 59 c"
proof -
  have "(60::nat) = Suc 59" by simp
  then show ?thesis by (simp only: replicate_Suc)
qed

lemma lines_of_shape:
  "l \<in> set (lines_of u oc) \<Longrightarrow> take 6 l = ''Scrapi'' \<or> take 3 l = ok_mark \<or> take 3 l = error_mark"
  by (cases oc) (auto simp: error_line_def ok_mark_def error_mark_def)

lemma after_loop_lines_shape:
  "l \<in> set (out (snd (after_loop b w fs))) \<Longrightarrow>
   take 6 l = ''Scrapi'' \<or> take 3 l = ok_mark \<or> take 3 l = error_mark"
  by (auto simp: after_loop_out dest: lines_of_shape)

lemma summary_lines_not_in_loop_output:
  "summary_line n \<notin> set (out (snd (after_loop b w fs)))"
  "[newline] @ replicate 60 CHR ''='' \<notin> set (out (snd (after_loop b w fs)))"
  "''Output directory: ./docs_scraped/'' \<notin> set (out (snd (after_loop b w fs)))"
  "replicate 60 CHR ''='' \<notin> set (out (snd (after_loop b w fs)))"
  using after_loop_lines_shape[of _ b w fs]
  by (fastforce simp: summary_line_def ok_mark_def error_mark_def newline_def rule_head)+

lemma main_out_failure:
  "notion_failure (notion_outcome_of b (notion w)) = Some e \<Longrightarrow>
   out (snd (main b w (start fs))) = out (snd (after_loop b w fs)) @ [notion_line]"
  by (cases "notion_outcome_of b (notion w)") (simp_all add: main_outcome Let_def)

lemma main_closed:
  "closed (snd (main b w (start fs))) = (notion_failure (notion_outcome_of b (notion w)) = None)"
  by (cases "notion_outcome_of b (notion w)") (simp_all add: main_outcome Let_def after_loop_closed)

lemma entry_keys:
  "map fst (List.map_filter (\<lambda>u. entry_of u (g u)) xs) =
     map page_name_of (filter (\<lambda>u. recorded (g u)) xs)"
proof (induction xs)
  case Nil
  then show ?case by simp
next
  case (Cons x xs)
  then show ?case by (cases "g x") simp_all
qed

lemma results_keys:
  "map fst (fst (after_loop b w fs)) =
     map page_name_of (filter (\<lambda>v. recorded (outcome_of b (fixed_list w v))) DOCS_URLS)"
  by (simp add: after_loop_results entry_keys)

lemma results_length:
  "length (fst (after_loop b w fs)) =
     length (filter (\<lambda>v. recorded (outcome_of b (fixed_list w v))) DOCS_URLS)"
proof -
  have "length (map fst (fst (after_loop b w fs))) =
        length (map page_name_of (filter (\<lambda>v. recorded (outcome_of b (fixed_list w v))) DOCS_URLS))"
    by (simp only: results_keys)
  then show ?thesis by simp
qed

lemma page_name_inj: "inj_on page_name_of (set DOCS_URLS)"
  using distinct_page_names by (simp add: distinct_map)

lemma results_key_iff:
  assumes "u \<in> set DOCS_URLS"
  shows "page_name_of u \<in> fst ` set (fst (after_loop b w fs)) \<longleftrightarrow>
         recorded (outcome_of b (fixed_list w u))"
proof -
  have "fst ` set (fst (after_loop b w fs)) =
        page_name_of ` {v \<in> set DOCS_URLS. recorded (outcome_of b (fixed_list w v))}"
  proof -
    have "set (map fst (fst (after_loop b w fs))) =
          set (map page_name_of (filter (\<lambda>v. recorded (outcome_of b (fixed_list w v))) DOCS_URLS))"
      by (simp only: results_keys)
    then show ?thesis by (simp only: set_map set_filter)
  qed
  moreover have "page_name_of u \<in> page_name_of ` {v \<in> set DOCS_URLS. recorded (outcome_of b (fixed_list w v))}
        \<longleftrightarrow> recorded (outcome_of b (fixed_list w u))"
    using assms page_name_inj by (auto simp: inj_on_def)
  ultimately show ?thesis by simp
qed

lemma main_out_success:
  "notion_failure (notion_outcome_of b (notion w)) = None \<Longrightarrow>
   out (snd (main b w (start fs))) =
     out (snd (after_loop b w fs)) @
       [notion_line,
        ok_mark @ '' Saved Notion docs to docs_scraped/notion_api_docs.txt'',
        [newline] @ replicate 60 CHR ''='',
        summary_line (length (fst (after_loop b w fs))),
        ''Output directory: ./docs_scraped/'',
        replicate 60 CHR ''='']"
  by (cases "notion_outcome_of b (notion w)") (simp_all add: main_outcome Let_def)

lemma main_returns:
  "fst (main b w (start fs)) = Inr res \<Longrightarrow>
   res = fst (after_loop b w fs) \<and> notion_failure (notion_outcome_of b (notion w)) = None"
  by (simp add: main_fst split: option.splits)

lemma visit_files:
  "files (snd (visit b w u (r, s))) =
     (files s)(output_file_of u := file_after u (outcome_of b (w u)) (files s (output_file_of u)))"
  by (simp add: visit_eq)

lemma replicate_two: "replicate 2 x = [x, x]"
  by (simp add: numeral_2_eq_2)

lemma key_literals:
  "py_encode_basestring ''url'' = [dquote] @ ''url'' @ [dquote]"
  "py_encode_basestring ''title'' = [dquote] @ ''title'' @ [dquote]"
  "py_encode_basestring ''text'' = [dquote] @ ''text'' @ [dquote]"
  "py_encode_basestring ''html'' = [dquote] @ ''html'' @ [dquote]"
  by (simp_all add: py_encode_basestring_def escape_char_def backslash_def dquote_def)

lemma json_layout:
  "json_dump 2 [(''url'', u), (''title'', t), (''text'', x), (''html'', h)] =
     ''{'' @ [newline] @
     ''  '' @ [dquote] @ ''url'' @ [dquote] @ '': '' @ py_encode_basestring u @ '','' @ [newline] @
     ''  '' @ [dquote] @ ''title'' @ [dquote] @ '': '' @ py_encode_basestring t @ '','' @ [newline] @
     ''  '' @ [dquote] @ ''text'' @ [dquote] @ '': '' @ py_encode_basestring x @ '','' @ [newline] @
     ''  '' @ [dquote] @ ''html'' @ [dquote] @ '': '' @ py_encode_basestring h @ [newline] @
     ''}''"
  by (simp add: json_dump_def replicate_two key_literals)

lemma escape_char_high: "128 \<le> (of_char k :: nat) \<Longrightarrow> escape_char k = [k]"
proof -
  assume h: "128 \<le> (of_char k :: nat)"
  have "k \<noteq> backslash" "k \<noteq> dquote" "k \<noteq> CHR 0x08" "k \<noteq> CHR 0x0C" "k \<noteq> CHR 0x0A"
    "k \<noteq> CHR 0x0D" "k \<noteq> CHR 0x09"
    using h by (auto simp: backslash_def dquote_def)
  moreover have "\<not> (of_char k :: nat) < 32" using h by simp
  ultimately show ?thesis by (simp add: escape_char_def)
qed

lemma outcome_failed_early:
  "isl (steps b a) \<or> open_exc a \<noteq> None \<Longrightarrow> \<exists>e. outcome_of b a = Failed e"
  by (auto simp: outcome_of_def split: sum.splits option.splits)

lemma outcome_partial:
  "steps b a = Inr c \<Longrightarrow> open_exc a = None \<Longrightarrow> write_exc a = Some (n, e) \<Longrightarrow>
   outcome_of b a = Partial n e c"
  by (simp add: outcome_of_def)

lemma scrape_page_returns:
  "fst (scrape_page b a url f s) = (case outcome_of b a of Saved c \<Rightarrow> Some (text_field c) | _ \<Rightarrow> None)"
  by (cases "outcome_of b a") (simp_all add: scrape_page_outcome)

lemma outcome_cases:
  "outcome_of b a = Failed e \<Longrightarrow> isl (steps b a) \<or> open_exc a \<noteq> None"
  "outcome_of b a = Partial n e c \<Longrightarrow> steps b a = Inr c \<and> open_exc a = None"
  "outcome_of b a = Saved c \<Longrightarrow> steps b a = Inr c \<and> open_exc a = None \<and> write_exc a = None"
  by (auto simp: outcome_of_def split: sum.splits option.splits prod.splits)

lemma summary_line_literals:
  "summary_line 7 = ''Scraped 7 pages successfully''"
  "summary_line 8 = ''Scraped 8 pages successfully''"
  by code_simp+

lemma main_files_elsewhere:
  "f \<notin> output_file_of ` set DOCS_URLS \<Longrightarrow> f \<noteq> notion_file \<Longrightarrow>
   files (snd (main b w (start fs))) f = fs f"
  by (simp add: main_files after_loop_files_other)

lemma recorded_Saved: "recorded oc \<Longrightarrow> \<exists>c. oc = Saved c \<and> text_field c \<noteq> []"
  by (cases oc) auto

lemma distinct_DOCS_URLS: "distinct DOCS_URLS"
  using distinct_output_files by (simp add: distinct_map)

lemma concat_single:
  "distinct xs \<Longrightarrow> u \<in> set xs \<Longrightarrow> (\<And>v. v \<in> set xs \<Longrightarrow> v \<noteq> u \<Longrightarrow> f v = []) \<Longrightarrow>
   concat (map f xs) = f u"
proof (induction xs)
  case Nil
  then show ?case by simp
next
  case (Cons x xs)
  show ?case
  proof (cases "x = u")
    case True
    then have "u \<notin> set xs" using Cons.prems(1) by simp
    then have "\<And>v. v \<in> set xs \<Longrightarrow> f v = []" using Cons.prems(3) by auto
    then have "concat (map f xs) = []" by simp
    then show ?thesis using True by simp
  next
    case False
    then have "f x = []" "u \<in> set xs" using Cons.prems by auto
    then show ?thesis using Cons by simp
  qed
qed

lemma error_lines_of:
  "filter is_error_line (lines_of v oc) =
     (case failure_of oc of None \<Rightarrow> [] | Some e \<Rightarrow> [error_line v e])"
  by (cases oc) (simp_all add: is_error_line_def error_line_def error_mark_def ok_mark_def)

lemma announce_lines_of:
  "filter (\<lambda>l. take 10 l = ''Scraping: '') (lines_of v oc) = [''Scraping: '' @ v]"
  by (cases oc) (simp_all add: error_line_def error_mark_def ok_mark_def)

lemma after_loop_announces:
  "filter (\<lambda>l. take 10 l = ''Scraping: '') (out (snd (after_loop b w fs))) =
     map (\<lambda>v. ''Scraping: '' @ v) DOCS_URLS"
proof -
  have "filter (\<lambda>l. take 10 l = ''Scraping: '') (concat (map (\<lambda>v. lines_of v (g v)) xs)) =
        map (\<lambda>v. ''Scraping: '' @ v) xs" for g xs
    by (induction xs) (simp_all add: announce_lines_of)
  then show ?thesis by (simp only: after_loop_out)
qed

lemma after_loop_error_lines:
  "filter is_error_line (out (snd (after_loop b w fs))) =
     concat (map (\<lambda>v. case failure_of (outcome_of b (fixed_list w v)) of
                          None \<Rightarrow> [] | Some e \<Rightarrow> [error_line v e]) DOCS_URLS)"
proof -
  have "filter is_error_line (concat (map (\<lambda>v. lines_of v (g v)) xs)) =
        concat (map (\<lambda>v. case failure_of (g v) of None \<Rightarrow> [] | Some e \<Rightarrow> [error_line v e]) xs)"
    for g xs
    by (induction xs) (simp_all add: error_lines_of)
  then show ?thesis by (simp only: after_loop_out)
qed

lemma main_error_lines:
  "filter is_error_line (out (snd (main b w (start fs)))) =
     filter is_error_line (out (snd (after_loop b w fs)))"
  by (cases "notion_outcome_of b (notion w)")
     (simp_all add: main_outcome Let_def is_error_line_def notion_line_def error_mark_def
        ok_mark_def newline_def summary_line_def rule_head)

lemma main_out_notion_line:
  "take (Suc (length (out (snd (after_loop b w fs))))) (out (snd (main b w (start fs)))) =
     out (snd (after_loop b w fs)) @ [notion_line]"
  by (cases "notion_outcome_of b (notion w)") (simp_all add: main_outcome Let_def)

lemma succeeded_failure: "succeeded oc \<Longrightarrow> failure_of oc = None"
  by (cases oc) simp_all

lemma succeeded_Saved: "succeeded oc \<Longrightarrow> \<exists>c. oc = Saved c"
  by (cases oc) simp_all

section \<open>The claims\<close>

text \<open>
  C8: the exit status is 0 however many pages of the fixed list went through, and 1
  exactly when an exception leaves the visit of the Notion page; nothing else enters it.
\<close>

theorem exit_code_decided_by_notion_step:
  "exit_code b w fs = (case notion_failure (notion_outcome_of b (notion w)) of None \<Rightarrow> 0 | Some e \<Rightarrow> 1)
   \<and> exit_code b (w\<lparr>fixed_list := f\<rparr>) fs = exit_code b w fs"
  by (simp add: exit_code_def main_fst split: option.splits)

theorem exit_code_decided_by_notion_step_witness:
  "length (fst (after_loop sample_browser all_down_world Map.empty)) = 0
   \<and> exit_code sample_browser all_down_world Map.empty = 0
   \<and> length (fst (after_loop sample_browser all_ok_world Map.empty)) = 8
   \<and> exit_code sample_browser all_ok_world Map.empty = 0
   \<and> exit_code sample_browser notion_down_world Map.empty = 1"
  using exit_code_decided_by_notion_step [of sample_browser all_down_world Map.empty]
        exit_code_decided_by_notion_step [of sample_browser all_ok_world Map.empty]
        exit_code_decided_by_notion_step [of sample_browser notion_down_world Map.empty]
  by (simp add: after_loop_results all_down_world_def all_ok_world_def notion_down_world_def
      ok_notion_outcome notion_goto_outcome goto_outcome ok_outcome DOCS_URLS_def
      sample_content_def)

text \<open>
  C10: when an exception leaves the visit of the Notion page, \<open>browser.close()\<close> is not
  called and none of the four summary lines is printed: the output ends with the line
  announcing the Notion page, whatever the fixed list did before.
\<close>

theorem notion_failure_skips_close_and_summary:
  assumes "notion_failure (notion_outcome_of b (notion w)) = Some e"
  shows "\<not> closed (snd (main b w (start fs)))
     \<and> out (snd (main b w (start fs))) = out (snd (after_loop b w fs)) @ [notion_line]
     \<and> (\<forall>n. summary_line n \<notin> set (out (snd (main b w (start fs)))))
     \<and> [newline] @ replicate 60 CHR ''='' \<notin> set (out (snd (main b w (start fs))))
     \<and> ''Output directory: ./docs_scraped/'' \<notin> set (out (snd (main b w (start fs))))
     \<and> replicate 60 CHR ''='' \<notin> set (out (snd (main b w (start fs))))"
proof -
  have o: "out (snd (main b w (start fs))) = out (snd (after_loop b w fs)) @ [notion_line]"
    using assms by (rule main_out_failure)
  have n: "summary_line n \<noteq> notion_line" "[newline] @ replicate 60 CHR ''='' \<noteq> notion_line"
    "''Output directory: ./docs_scraped/'' \<noteq> notion_line" "replicate 60 CHR ''='' \<noteq> notion_line" for n
    by (simp_all add: summary_line_def notion_line_def newline_def rule_head)
  have "\<not> closed (snd (main b w (start fs)))" using assms by (simp add: main_closed)
  then show ?thesis using o n summary_lines_not_in_loop_output by simp
qed

theorem notion_failure_skips_close_and_summary_witness:
  "notion_failure (notion_outcome_of sample_browser (notion notion_down_world)) = Some ''Timeout 30000ms exceeded.''
   \<and> length (fst (after_loop sample_browser notion_down_world Map.empty)) = 8
   \<and> \<not> closed (snd (main sample_browser notion_down_world (start Map.empty)))
   \<and> summary_line 8 \<notin> set (out (snd (main sample_browser notion_down_world (start Map.empty))))"
proof -
  have h: "notion_failure (notion_outcome_of sample_browser (notion notion_down_world)) = Some ''Timeout 30000ms exceeded.''"
    by (simp add: notion_down_world_def notion_goto_outcome)
  have "length (fst (after_loop sample_browser notion_down_world Map.empty)) = 8"
    by (simp add: after_loop_results notion_down_world_def ok_outcome DOCS_URLS_def
        sample_content_def)
  then show ?thesis
    using h notion_failure_skips_close_and_summary [OF h, of Map.empty] by blast
qed

text \<open>
  C9: a page whose extraction goes through with an empty text has its JSON file written
  and \<open>scrape_page\<close> returns the empty string, not \<open>None\<close>; the test \<open>if content:\<close>
  then leaves \<open>results\<close> as it was, so the page is no key of \<open>results\<close> and the count of
  the summary, the length of \<open>results\<close>, stays below 8.
\<close>

theorem empty_text_saved_but_not_recorded:
  assumes "u \<in> set DOCS_URLS"
    and "outcome_of b (fixed_list w u) = Saved c"
    and "text_field c = []"
  shows "fst (scrape_page b (fixed_list w u) u (output_file_of u) s) = Some []
     \<and> fst (visit b (fixed_list w) u (r, s)) = r
     \<and> files (snd (main b w (start fs))) (output_file_of u) = Some (json_of u c)
     \<and> page_name_of u \<notin> fst ` set (fst (after_loop b w fs))
     \<and> length (fst (after_loop b w fs)) < 8
     \<and> (\<forall>res. fst (main b w (start fs)) = Inr res \<longrightarrow>
           res = fst (after_loop b w fs)
           \<and> summary_line (length res) \<in> set (out (snd (main b w (start fs)))))"
proof -
  have 1: "fst (scrape_page b (fixed_list w u) u (output_file_of u) s) = Some []"
    using assms by (simp add: scrape_page_outcome)
  have 2: "fst (visit b (fixed_list w) u (r, s)) = r"
    using assms by (simp add: visit_eq)
  have 3: "files (snd (main b w (start fs))) (output_file_of u) = Some (json_of u c)"
    using assms by (simp add: main_files_url)
  have nr: "\<not> recorded (outcome_of b (fixed_list w u))" using assms by simp
  then have 4: "page_name_of u \<notin> fst ` set (fst (after_loop b w fs))"
    using assms(1) by (simp add: results_key_iff)
  have "length (filter (\<lambda>v. recorded (outcome_of b (fixed_list w v))) DOCS_URLS) < length DOCS_URLS"
    using assms(1) nr by (intro length_filter_less)
  then have 5: "length (fst (after_loop b w fs)) < 8"
    by (simp add: results_length length_DOCS_URLS)
  have 6: "res = fst (after_loop b w fs) \<and> summary_line (length res) \<in> set (out (snd (main b w (start fs))))"
    if "fst (main b w (start fs)) = Inr res" for res
    using main_returns[OF that] by (simp add: main_out_success)
  from 6 have 7: "\<forall>res. fst (main b w (start fs)) = Inr res \<longrightarrow>
           res = fst (after_loop b w fs)
           \<and> summary_line (length res) \<in> set (out (snd (main b w (start fs))))"
    by (intro allI impI)
  show ?thesis using 1 2 3 4 5 7 by (intro conjI)
qed

theorem empty_text_saved_but_not_recorded_witness:
  "overview_url \<in> set DOCS_URLS
   \<and> text_field \<lparr>text_field = [], html_field = ''<img></img>'', title_field = sample_title\<rparr> = []
   \<and> files (snd (main sample_browser picture_world (start Map.empty))) (output_file_of overview_url)
       = Some (json_of overview_url \<lparr>text_field = [], html_field = ''<img></img>'', title_field = sample_title\<rparr>)
   \<and> ''overview'' \<notin> fst ` set (fst (after_loop sample_browser picture_world Map.empty))
   \<and> summary_line 7 \<in> set (out (snd (main sample_browser picture_world (start Map.empty))))"
proof -
  have u: "overview_url \<in> set DOCS_URLS" by (simp add: overview_url_def DOCS_URLS_def)
  have o: "outcome_of sample_browser (fixed_list picture_world overview_url) =
           Saved \<lparr>text_field = [], html_field = ''<img></img>'', title_field = sample_title\<rparr>"
    by (simp add: picture_world_def picture_outcome)
  have t: "text_field \<lparr>text_field = [], html_field = ''<img></img>'', title_field = sample_title\<rparr> = []"
    by simp
  have n: "page_name_of overview_url = ''overview''"
    by (simp add: page_name_of_def overview_url_def)
  have r: "fst (after_loop sample_browser picture_world Map.empty) =
      [(''monitors'', ''Monitors''), (''statuspages'', ''Monitors''),
       (''maintenance'', ''Monitors''), (''incidents'', ''Monitors''),
       (''outages'', ''Monitors''), (''healthchecks'', ''Monitors''),
       (''reports'', ''Monitors'')]"
    using page_names
    by (simp add: after_loop_results picture_world_def picture_outcome ok_outcome DOCS_URLS_def
        sample_content_def overview_url_def)
  have m: "fst (main sample_browser picture_world (start Map.empty)) =
           Inr (fst (after_loop sample_browser picture_world Map.empty))"
    by (simp add: main_fst picture_world_def ok_notion_outcome)
  note th = empty_text_saved_but_not_recorded [OF u o t, of "start Map.empty" "[]" Map.empty]
  from th have f: "files (snd (main sample_browser picture_world (start Map.empty))) (output_file_of overview_url)
       = Some (json_of overview_url \<lparr>text_field = [], html_field = ''<img></img>'', title_field = sample_title\<rparr>)"
    by blast
  from th have "page_name_of overview_url \<notin> fst ` set (fst (after_loop sample_browser picture_world Map.empty))"
    by blast
  then have k: "''overview'' \<notin> fst ` set (fst (after_loop sample_browser picture_world Map.empty))"
    by (simp only: n not_False_eq_True)
  from th m have "summary_line (length (fst (after_loop sample_browser picture_world Map.empty)))
      \<in> set (out (snd (main sample_browser picture_world (start Map.empty))))"
    by blast
  moreover have "length (fst (after_loop sample_browser picture_world Map.empty)) = 7"
    by (simp add: r)
  ultimately have sl: "summary_line 7 \<in> set (out (snd (main sample_browser picture_world (start Map.empty))))"
    by simp
  show ?thesis using u t f k sl by (intro conjI)
qed

text \<open>
  C7: a visit of a fixed-list URL that goes through writes exactly one file, at
  \<open>docs_scraped/\<close> followed by the last piece of the URL between slashes and \<open>.json\<close>,
  and the file is still there when the run is over. Its content is an object of the four
  members \<open>url\<close>, \<open>title\<close>, \<open>text\<close>, \<open>html\<close> in this order, each on a line of its own
  indented by two spaces, the values being the URL visited and the strings the extraction
  returned, as JSON string literals; a byte of a character beyond ASCII is written as it is.
\<close>

theorem saved_page_json_file:
  assumes "u \<in> set DOCS_URLS"
    and "outcome_of b (fixed_list w u) = Saved c"
    and "128 \<le> (of_char k :: nat)"
  shows "page_evaluate b (fixed_list w u) = Inr c
     \<and> files (snd (visit b (fixed_list w) u (r, s))) =
         (files s)(''docs_scraped/'' @ last (split_on CHR ''/'' u) @ ''.json'' \<mapsto>
            json_dump 2 [(''url'', u), (''title'', title_field c),
                         (''text'', text_field c), (''html'', html_field c)])
     \<and> files (snd (main b w (start fs))) (''docs_scraped/'' @ last (split_on CHR ''/'' u) @ ''.json'') =
         Some (json_dump 2 [(''url'', u), (''title'', title_field c),
                            (''text'', text_field c), (''html'', html_field c)])
     \<and> json_dump 2 [(''url'', u), (''title'', title_field c),
                     (''text'', text_field c), (''html'', html_field c)] =
         ''{'' @ [newline] @
         ''  '' @ [dquote] @ ''url'' @ [dquote] @ '': '' @ py_encode_basestring u @ '','' @ [newline] @
         ''  '' @ [dquote] @ ''title'' @ [dquote] @ '': '' @ py_encode_basestring (title_field c) @ '','' @ [newline] @
         ''  '' @ [dquote] @ ''text'' @ [dquote] @ '': '' @ py_encode_basestring (text_field c) @ '','' @ [newline] @
         ''  '' @ [dquote] @ ''html'' @ [dquote] @ '': '' @ py_encode_basestring (html_field c) @ [newline] @
         ''}''
     \<and> escape_char k = [k]"
proof -
  have p: "''docs_scraped/'' @ last (split_on CHR ''/'' u) @ ''.json'' = output_file_of u"
    by (simp add: output_file_of_def page_name_of_def)
  have 1: "page_evaluate b (fixed_list w u) = Inr c"
    using assms(2) by (auto simp: outcome_of_def steps_def split: option.splits sum.splits prod.splits)
  have 2: "files (snd (visit b (fixed_list w) u (r, s))) = (files s)(output_file_of u \<mapsto> json_of u c)"
    using assms(2) by (simp add: visit_files)
  have 3: "files (snd (main b w (start fs))) (output_file_of u) = Some (json_of u c)"
    using assms(1,2) by (simp add: main_files_url)
  show ?thesis
    unfolding p using 1 2 3 json_layout escape_char_high[OF assms(3)]
    by (simp only: json_of_def simp_thms)
qed

theorem saved_page_json_file_witness:
  "overview_url \<in> set DOCS_URLS
   \<and> outcome_of sample_browser (fixed_list all_ok_world overview_url) = Saved sample_content
   \<and> 128 \<le> (of_char (CHR 0xC3) :: nat)
   \<and> files (snd (main sample_browser all_ok_world (start Map.empty))) ''docs_scraped/overview.json'' =
       Some (''{'' @ [newline] @
         ''  '' @ [dquote] @ ''url'' @ [dquote] @ '': '' @ [dquote] @ ''https://hyperping.com/docs/api/overview'' @ [dquote] @ '','' @ [newline] @
         ''  '' @ [dquote] @ ''title'' @ [dquote] @ '': '' @ [dquote] @ ''API r'' @ [CHR 0xC3, CHR 0xA9] @ ''f'' @ [CHR 0xC3, CHR 0xA9] @ ''rence'' @ [dquote] @ '','' @ [newline] @
         ''  '' @ [dquote] @ ''text'' @ [dquote] @ '': '' @ [dquote] @ ''Monitors'' @ [dquote] @ '','' @ [newline] @
         ''  '' @ [dquote] @ ''html'' @ [dquote] @ '': '' @ [dquote] @ ''<p>Monitors</p>'' @ [dquote] @ [newline] @
         ''}'')
   \<and> escape_char (CHR 0xC3) = [CHR 0xC3]"
proof -
  have u: "overview_url \<in> set DOCS_URLS" by (simp add: overview_url_def DOCS_URLS_def)
  have o: "outcome_of sample_browser (fixed_list all_ok_world overview_url) = Saved sample_content"
    by (simp add: all_ok_world_def ok_outcome)
  have k: "128 \<le> (of_char (CHR 0xC3) :: nat)" by simp
  have n: "''docs_scraped/'' @ last (split_on CHR ''/'' overview_url) @ ''.json'' = ''docs_scraped/overview.json''"
    by (simp add: overview_url_def)
  have e: "py_encode_basestring overview_url = [dquote] @ ''https://hyperping.com/docs/api/overview'' @ [dquote]"
    "py_encode_basestring (title_field sample_content) = [dquote] @ ''API r'' @ [CHR 0xC3, CHR 0xA9] @ ''f'' @ [CHR 0xC3, CHR 0xA9] @ ''rence'' @ [dquote]"
    "py_encode_basestring (text_field sample_content) = [dquote] @ ''Monitors'' @ [dquote]"
    "py_encode_basestring (html_field sample_content) = [dquote] @ ''<p>Monitors</p>'' @ [dquote]"
    by (simp_all add: py_encode_basestring_def escape_char_def backslash_def dquote_def
        overview_url_def sample_content_def sample_title_def)
  note th = saved_page_json_file [OF u o k, of "[]" "start Map.empty" Map.empty]
  from th have f: "files (snd (main sample_browser all_ok_world (start Map.empty)))
         (''docs_scraped/'' @ last (split_on CHR ''/'' overview_url) @ ''.json'') =
       Some (json_dump 2 [(''url'', overview_url), (''title'', title_field sample_content),
                          (''text'', text_field sample_content), (''html'', html_field sample_content)])"
    by blast
  from th have j: "json_dump 2 [(''url'', overview_url), (''title'', title_field sample_content),
                          (''text'', text_field sample_content), (''html'', html_field sample_content)] =
         ''{'' @ [newline] @
         ''  '' @ [dquote] @ ''url'' @ [dquote] @ '': '' @ py_encode_basestring overview_url @ '','' @ [newline] @
         ''  '' @ [dquote] @ ''title'' @ [dquote] @ '': '' @ py_encode_basestring (title_field sample_content) @ '','' @ [newline] @
         ''  '' @ [dquote] @ ''text'' @ [dquote] @ '': '' @ py_encode_basestring (text_field sample_content) @ '','' @ [newline] @
         ''  '' @ [dquote] @ ''html'' @ [dquote] @ '': '' @ py_encode_basestring (html_field sample_content) @ [newline] @
         ''}''"
    by blast
  from th have c: "escape_char (CHR 0xC3) = [CHR 0xC3]" by blast
  have "files (snd (main sample_browser all_ok_world (start Map.empty))) ''docs_scraped/overview.json'' =
       Some (''{'' @ [newline] @
         ''  '' @ [dquote] @ ''url'' @ [dquote] @ '': '' @ [dquote] @ ''https://hyperping.com/docs/api/overview'' @ [dquote] @ '','' @ [newline] @
         ''  '' @ [dquote] @ ''title'' @ [dquote] @ '': '' @ [dquote] @ ''API r'' @ [CHR 0xC3, CHR 0xA9] @ ''f'' @ [CHR 0xC3, CHR 0xA9] @ ''rence'' @ [dquote] @ '','' @ [newline] @
         ''  '' @ [dquote] @ ''text'' @ [dquote] @ '': '' @ [dquote] @ ''Monitors'' @ [dquote] @ '','' @ [newline] @
         ''  '' @ [dquote] @ ''html'' @ [dquote] @ '': '' @ [dquote] @ ''<p>Monitors</p>'' @ [dquote] @ [newline] @
         ''}'')"
    using f unfolding n j e by simp
  then show ?thesis using u o k c by (intro conjI)
qed

text \<open>
  C5: the container is the first candidate found in the order \<open>main\<close>, \<open>article\<close>,
  \<open>.documentation\<close>, \<open>.notion-page-content\<close>, with the body as the default (and an
  exception when there is no body either); a candidate selector finds an element that
  matches it, and finds none only when no element of the document matches. The script and
  style descendants are detached from the container in the page itself, not from a copy:
  afterwards the page's document holds the stripped container at the container's place,
  and none of these elements is left in it. The value returned is the rendered text and
  the inner markup of the stripped container, and the document title.
\<close>

theorem extraction_selects_and_strips_in_place:
  "select_main d = priority_choice d
   \<and> (case priority_choice d of
        None \<Rightarrow> extract_script b d = Inl ''TypeError: Cannot read properties of null''
      | Some p \<Rightarrow>
          (\<exists>m. node_at (root d) p = Some m
             \<and> extract_script b d =
                 Inr (\<lparr>text_field = inner_text b (strip script_style m),
                       html_field = inner_html b (strip script_style m),
                       title_field = doc_title d\<rparr>,
                      d\<lparr>root := replace_at (root d) p (strip script_style m)\<rparr>)
             \<and> query_selector_all script_style (strip script_style m) = []))
   \<and> (\<forall>sel p. query_selector sel d = Some p \<longrightarrow>
         (\<exists>m. node_at (root d) p = Some m \<and> matches sel m))
   \<and> (\<forall>sel. (query_selector sel d = None) =
         (\<forall>q m. node_at (root d) q = Some m \<longrightarrow> \<not> matches sel m))"
proof -
  have 1: "select_main d = priority_choice d" by (rule select_main_priority)
  have 2: "case priority_choice d of
        None \<Rightarrow> extract_script b d = Inl ''TypeError: Cannot read properties of null''
      | Some p \<Rightarrow>
          (\<exists>m. node_at (root d) p = Some m
             \<and> extract_script b d =
                 Inr (\<lparr>text_field = inner_text b (strip script_style m),
                       html_field = inner_html b (strip script_style m),
                       title_field = doc_title d\<rparr>,
                      d\<lparr>root := replace_at (root d) p (strip script_style m)\<rparr>)
             \<and> query_selector_all script_style (strip script_style m) = [])"
  proof (cases "priority_choice d")
    case None
    then show ?thesis by (simp add: extract_script_eq)
  next
    case (Some p)
    then obtain t cs ks where "node_at (root d) p = Some (Element t cs ks)"
      using priority_choice_Some by blast
    then show ?thesis using Some
      by (simp add: extract_script_eq query_selector_all_strip del: strip.simps)
  qed
  have 3: "\<forall>sel p. query_selector sel d = Some p \<longrightarrow>
         (\<exists>m. node_at (root d) p = Some m \<and> matches sel m)"
    using query_selector_Some by blast
  have 4: "\<forall>sel. (query_selector sel d = None) =
         (\<forall>q m. node_at (root d) q = Some m \<longrightarrow> \<not> matches sel m)"
    using query_selector_None by blast
  show ?thesis using 1 2 3 4 by (intro conjI)
qed

theorem extraction_selects_and_strips_in_place_witness:
  "priority_choice picture_page = Some [1, 0]
   \<and> extract_script sample_browser picture_page =
       Inr (\<lparr>text_field = [], html_field = ''<img></img>'', title_field = sample_title\<rparr>,
            picture_page)
   \<and> query_selector [Tag ''main''] picture_page = Some [1, 0]
   \<and> node_at (root picture_page) [1, 0] = Some (Element ''main'' [] [Element ''img'' [] []])
   \<and> matches [Tag ''main''] (Element ''main'' [] [Element ''img'' [] []])
   \<and> query_selector [Tag ''article''] picture_page = None
   \<and> \<not> matches [Tag ''article''] (Element ''main'' [] [Element ''img'' [] []])"
proof -
  note th = extraction_selects_and_strips_in_place [of picture_page sample_browser]
  have q: "query_selector [Tag ''main''] picture_page = Some [1, 0]"
    "query_selector [Tag ''article''] picture_page = None"
    by (simp_all add: query_selector_def matches_def picture_page_def)
  then have p: "priority_choice picture_page = Some [1, 0]"
    by (simp add: priority_choice_def)
  have n: "node_at (root picture_page) [1, 0] = Some (Element ''main'' [] [Element ''img'' [] []])"
    by (simp add: picture_page_def)
  have s: "strip script_style (Element ''main'' [] [Element ''img'' [] []]) =
           Element ''main'' [] [Element ''img'' [] []]"
    by (simp add: script_style_def matches_def)
  have r: "picture_page\<lparr>root := replace_at (root picture_page) [1, 0] (Element ''main'' [] [Element ''img'' [] []])\<rparr>
           = picture_page"
    by (simp add: picture_page_def)
  have d: "doc_title picture_page = sample_title" by (simp add: picture_page_def)
  from th have "case priority_choice picture_page of
        None \<Rightarrow> extract_script sample_browser picture_page = Inl ''TypeError: Cannot read properties of null''
      | Some p \<Rightarrow>
          (\<exists>m. node_at (root picture_page) p = Some m
             \<and> extract_script sample_browser picture_page =
                 Inr (\<lparr>text_field = inner_text sample_browser (strip script_style m),
                       html_field = inner_html sample_browser (strip script_style m),
                       title_field = doc_title picture_page\<rparr>,
                      picture_page\<lparr>root := replace_at (root picture_page) p (strip script_style m)\<rparr>)
             \<and> query_selector_all script_style (strip script_style m) = [])"
    by blast
  then obtain m where m1: "node_at (root picture_page) [1, 0] = Some m"
    and m2: "extract_script sample_browser picture_page =
                 Inr (\<lparr>text_field = inner_text sample_browser (strip script_style m),
                       html_field = inner_html sample_browser (strip script_style m),
                       title_field = doc_title picture_page\<rparr>,
                      picture_page\<lparr>root := replace_at (root picture_page) [1, 0] (strip script_style m)\<rparr>)"
    unfolding p option.case by blast
  from m1 have meq: "m = Element ''main'' [] [Element ''img'' [] []]" unfolding n by simp
  have e: "extract_script sample_browser picture_page =
       Inr (\<lparr>text_field = [], html_field = ''<img></img>'', title_field = sample_title\<rparr>,
            picture_page)"
    using m2 unfolding meq s r d by (simp add: sample_browser_def)
  from th q(1) have "\<exists>m. node_at (root picture_page) [1, 0] = Some m \<and> matches [Tag ''main''] m"
    by blast
  then have m: "matches [Tag ''main''] (Element ''main'' [] [Element ''img'' [] []])"
    unfolding n by blast
  from th q(2) have "\<forall>q m. node_at (root picture_page) q = Some m \<longrightarrow> \<not> matches [Tag ''article''] m"
    by blast
  then have a: "\<not> matches [Tag ''article''] (Element ''main'' [] [Element ''img'' [] []])"
    using n by blast
  show ?thesis using p e q n m a by (intro conjI)
qed

text \<open>
  On a page whose \<open>main\<close> holds a script, the document of the page after the extraction
  is not the document before it: the script element is gone from the page.
\<close>

theorem extraction_changes_the_page:
  "extract_script sample_browser sample_page =
     Inr (sample_content,
          sample_page\<lparr>root := Element ''html'' []
            [Element ''head'' [] [],
             Element ''body'' [] [Element ''main'' [] [Element ''p'' [] [Text ''Monitors'']]]]\<rparr>)
   \<and> sample_page\<lparr>root := Element ''html'' []
            [Element ''head'' [] [],
             Element ''body'' [] [Element ''main'' [] [Element ''p'' [] [Text ''Monitors'']]]]\<rparr>
       \<noteq> sample_page"
  by (simp add: sample_extract sample_content_def) (simp add: sample_page_def)

text \<open>
  C1: when the visit of a fixed-list URL raises at navigation, at the selector wait, in
  the extraction or when the output file is opened, \<open>scrape_page\<close> returns \<open>None\<close> and
  the file at the URL's path is, after the run, what it was before the run (no file if
  there was none). When it raises while the opened file is written, after \<open>n\<close> characters,
  \<open>scrape_page\<close> returns \<open>None\<close> as well and the file is left holding the first \<open>n\<close>
  characters of the JSON text.
\<close>

theorem failed_visit_and_the_disk:
  assumes "u \<in> set DOCS_URLS"
  shows "(isl (steps b (fixed_list w u)) \<or> open_exc (fixed_list w u) \<noteq> None \<longrightarrow>
            fst (scrape_page b (fixed_list w u) u (output_file_of u) s) = None
            \<and> files (snd (scrape_page b (fixed_list w u) u (output_file_of u) s)) = files s
            \<and> files (snd (main b w (start fs))) (output_file_of u) = fs (output_file_of u))
     \<and> (steps b (fixed_list w u) = Inr c \<and> open_exc (fixed_list w u) = None
          \<and> write_exc (fixed_list w u) = Some (n, e) \<longrightarrow>
            fst (scrape_page b (fixed_list w u) u (output_file_of u) s) = None
            \<and> files (snd (main b w (start fs))) (output_file_of u) =
                Some (take n (json_dump 2 [(''url'', u), (''title'', title_field c),
                                           (''text'', text_field c), (''html'', html_field c)])))"
proof (intro conjI impI)
  assume "isl (steps b (fixed_list w u)) \<or> open_exc (fixed_list w u) \<noteq> None"
  then obtain e' where o: "outcome_of b (fixed_list w u) = Failed e'"
    using outcome_failed_early by blast
  show "fst (scrape_page b (fixed_list w u) u (output_file_of u) s) = None"
    by (simp add: scrape_page_returns o)
  show "files (snd (scrape_page b (fixed_list w u) u (output_file_of u) s)) = files s"
    by (simp add: scrape_page_outcome o)
  show "files (snd (main b w (start fs))) (output_file_of u) = fs (output_file_of u)"
    using assms by (simp add: main_files_url o)
next
  assume "steps b (fixed_list w u) = Inr c \<and> open_exc (fixed_list w u) = None
          \<and> write_exc (fixed_list w u) = Some (n, e)"
  then have o: "outcome_of b (fixed_list w u) = Partial n e c" by (simp add: outcome_partial)
  show "fst (scrape_page b (fixed_list w u) u (output_file_of u) s) = None"
    by (simp add: scrape_page_returns o)
  show "files (snd (main b w (start fs))) (output_file_of u) =
          Some (take n (json_dump 2 [(''url'', u), (''title'', title_field c),
                                     (''text'', text_field c), (''html'', html_field c)]))"
    using assms by (simp add: main_files_url o json_of_def)
qed

theorem failed_visit_and_the_disk_witness:
  "statuspages_url \<in> set DOCS_URLS
   \<and> isl (steps sample_browser (fixed_list nav_timeout_world statuspages_url))
   \<and> fst (scrape_page sample_browser (fixed_list nav_timeout_world statuspages_url)
            statuspages_url (output_file_of statuspages_url) (start Map.empty)) = None
   \<and> files (snd (main sample_browser nav_timeout_world (start Map.empty)))
        (output_file_of statuspages_url) = None
   \<and> steps sample_browser (fixed_list disk_full_world statuspages_url) = Inr sample_content
   \<and> open_exc (fixed_list disk_full_world statuspages_url) = None
   \<and> write_exc (fixed_list disk_full_world statuspages_url) = Some (20, ''No space left on device'')
   \<and> files (snd (main sample_browser disk_full_world (start Map.empty)))
        (output_file_of statuspages_url) =
       Some (take 20 (json_dump 2 [(''url'', statuspages_url), (''title'', title_field sample_content),
                (''text'', text_field sample_content), (''html'', html_field sample_content)]))"
proof -
  have u: "statuspages_url \<in> set DOCS_URLS" by (simp add: statuspages_url_def DOCS_URLS_def)
  have a: "isl (steps sample_browser (fixed_list nav_timeout_world statuspages_url))"
    by (simp add: nav_timeout_world_def steps_def)
  have b: "steps sample_browser (fixed_list disk_full_world statuspages_url) = Inr sample_content"
    "open_exc (fixed_list disk_full_world statuspages_url) = None"
    "write_exc (fixed_list disk_full_world statuspages_url) = Some (20, ''No space left on device'')"
    by (simp_all add: disk_full_world_def steps_def page_evaluate_def ok_attempt_def sample_extract
        sample_content_def)
  note t1 = failed_visit_and_the_disk [OF u, of sample_browser nav_timeout_world "start Map.empty" Map.empty]
  note t2 = failed_visit_and_the_disk [OF u, of sample_browser disk_full_world _ _ sample_content
              20 "''No space left on device''"]
  from t1 a have 1: "fst (scrape_page sample_browser (fixed_list nav_timeout_world statuspages_url)
            statuspages_url (output_file_of statuspages_url) (start Map.empty)) = None"
    and 2: "files (snd (main sample_browser nav_timeout_world (start Map.empty)))
        (output_file_of statuspages_url) = Map.empty (output_file_of statuspages_url)"
    by blast+
  from 2 have 3: "files (snd (main sample_browser nav_timeout_world (start Map.empty)))
        (output_file_of statuspages_url) = None" by simp
  from t2 b have 4: "files (snd (main sample_browser disk_full_world (start Map.empty)))
        (output_file_of statuspages_url) =
       Some (take 20 (json_dump 2 [(''url'', statuspages_url), (''title'', title_field sample_content),
                (''text'', text_field sample_content), (''html'', html_field sample_content)]))"
    by blast
  show ?thesis using u a 1 3 b 4 by (intro conjI)
qed

text \<open>
  The disk fills up after 20 characters of the third entry's file: \<open>scrape_page\<close>
  returns \<open>None\<close> and the file stays on disk with these 20 characters.
\<close>

theorem write_failure_leaves_partial_file:
  "fst (scrape_page sample_browser (fixed_list disk_full_world statuspages_url)
         statuspages_url (output_file_of statuspages_url) (start Map.empty)) = None
   \<and> files (snd (main sample_browser disk_full_world (start Map.empty))) ''docs_scraped/statuspages.json'' =
       Some (''{'' @ [newline] @ ''  '' @ [dquote] @ ''url'' @ [dquote] @ '': '' @ [dquote] @ ''https://'')"
proof -
  have u: "statuspages_url \<in> set DOCS_URLS" by (simp add: statuspages_url_def DOCS_URLS_def)
  have o: "outcome_of sample_browser (fixed_list disk_full_world statuspages_url) =
           Partial 20 ''No space left on device'' sample_content"
    by (simp add: disk_full_world_def write_ok_outcome)
  have p: "output_file_of statuspages_url = ''docs_scraped/statuspages.json''"
    by (simp add: output_file_of_def page_name_of_def statuspages_url_def)
  have j: "take 20 (json_of statuspages_url sample_content) =
           ''{'' @ [newline] @ ''  '' @ [dquote] @ ''url'' @ [dquote] @ '': '' @ [dquote] @ ''https://''"
    by (simp add: json_of_def json_layout py_encode_basestring_def statuspages_url_def
        escape_char_def backslash_def dquote_def newline_def)
  have "files (snd (main sample_browser disk_full_world (start Map.empty))) (output_file_of statuspages_url) =
        Some (take 20 (json_of statuspages_url sample_content))"
    using u by (simp add: main_files_url o)
  then show ?thesis unfolding p j by (simp add: scrape_page_returns o)
qed

text \<open>
  C4: an exception raised by the visit of the Notion page (navigation, the fixed wait,
  extraction, opening or writing the file) is not caught: it leaves \<open>main\<close> and the exit
  status is 1. When it is raised before the file is written, the file
  \<open>docs_scraped/notion_api_docs.txt\<close> is what it was before the run (no file if there
  was none); when it is raised while the opened file is written, after \<open>n\<close> characters,
  the file is left holding the first \<open>n\<close> characters of the text.
\<close>

theorem notion_failure_aborts_the_run:
  assumes "notion_failure (notion_outcome_of b (notion w)) = Some e"
  shows "fst (main b w (start fs)) = Inl e
     \<and> exit_code b w fs = 1
     \<and> files (snd (main b w (start fs))) ''docs_scraped/notion_api_docs.txt'' =
         (case notion_outcome_of b (notion w) of
            Notion_failed e' \<Rightarrow> fs ''docs_scraped/notion_api_docs.txt''
          | Notion_partial n e' t \<Rightarrow> Some (take n t)
          | Notion_saved t \<Rightarrow> Some t)"
proof -
  have 1: "fst (main b w (start fs)) = Inl e" using assms by (simp add: main_fst)
  then have 2: "exit_code b w fs = 1" by (simp add: exit_code_def)
  have 3: "files (snd (main b w (start fs))) ''docs_scraped/notion_api_docs.txt'' =
         (case notion_outcome_of b (notion w) of
            Notion_failed e' \<Rightarrow> fs ''docs_scraped/notion_api_docs.txt''
          | Notion_partial n e' t \<Rightarrow> Some (take n t)
          | Notion_saved t \<Rightarrow> Some t)"
    using main_files_notion[of b w fs]
    by (cases "notion_outcome_of b (notion w)") (simp_all add: notion_file_def)
  show ?thesis using 1 2 3 by (intro conjI)
qed

theorem notion_failure_aborts_the_run_witness:
  "notion_failure (notion_outcome_of sample_browser (notion notion_down_world)) = Some ''Timeout 30000ms exceeded.''
   \<and> fst (main sample_browser notion_down_world (start Map.empty)) = Inl ''Timeout 30000ms exceeded.''
   \<and> exit_code sample_browser notion_down_world Map.empty = 1
   \<and> files (snd (main sample_browser notion_down_world (start Map.empty))) ''docs_scraped/notion_api_docs.txt'' = None"
proof -
  have o: "notion_outcome_of sample_browser (notion notion_down_world) = Notion_failed ''Timeout 30000ms exceeded.''"
    by (simp add: notion_down_world_def notion_goto_outcome)
  then have h: "notion_failure (notion_outcome_of sample_browser (notion notion_down_world)) = Some ''Timeout 30000ms exceeded.''"
    by simp
  note th = notion_failure_aborts_the_run [OF h, of Map.empty]
  from th have 1: "fst (main sample_browser notion_down_world (start Map.empty)) = Inl ''Timeout 30000ms exceeded.''"
    and 2: "exit_code sample_browser notion_down_world Map.empty = 1"
    and 3: "files (snd (main sample_browser notion_down_world (start Map.empty))) ''docs_scraped/notion_api_docs.txt'' =
         (case notion_outcome_of sample_browser (notion notion_down_world) of
            Notion_failed e' \<Rightarrow> Map.empty ''docs_scraped/notion_api_docs.txt''
          | Notion_partial n e' t \<Rightarrow> Some (take n t)
          | Notion_saved t \<Rightarrow> Some t)"
    by blast+
  from 3 have 4: "files (snd (main sample_browser notion_down_world (start Map.empty))) ''docs_scraped/notion_api_docs.txt'' = None"
    unfolding o by simp
  show ?thesis using h 1 2 4 by (intro conjI)
qed

text \<open>
  The disk fills up after 3 characters of the Notion text file: the run aborts with exit
  status 1 and the file stays on disk with these 3 characters.
\<close>

theorem notion_write_failure_leaves_file:
  "fst (main sample_browser notion_disk_full_world (start Map.empty)) = Inl ''No space left on device''
   \<and> exit_code sample_browser notion_disk_full_world Map.empty = 1
   \<and> files (snd (main sample_browser notion_disk_full_world (start Map.empty)))
        ''docs_scraped/notion_api_docs.txt'' = Some ''Mon''"
proof -
  have o: "notion_outcome_of sample_browser (notion notion_disk_full_world) =
           Notion_partial 3 ''No space left on device'' ''Monitors''"
    by (simp add: notion_disk_full_world_def notion_write_outcome)
  have 1: "fst (main sample_browser notion_disk_full_world (start Map.empty)) = Inl ''No space left on device''"
    by (simp add: main_fst o)
  then have 2: "exit_code sample_browser notion_disk_full_world Map.empty = 1"
    by (simp add: exit_code_def)
  have "files (snd (main sample_browser notion_disk_full_world (start Map.empty))) notion_file = Some ''Mon''"
    by (simp add: main_files_notion o)
  then have 3: "files (snd (main sample_browser notion_disk_full_world (start Map.empty)))
        ''docs_scraped/notion_api_docs.txt'' = Some ''Mon''"
    by (simp add: notion_file_def)
  show ?thesis using 1 2 3 by (intro conjI)
qed

text \<open>
  C2: for a fixed-list URL whose output file did not exist before the run, the file
  exists after the run if and only if navigation, selector wait, extraction and the
  opening of the file all went through for that URL. If the URL is a key of \<open>results\<close>
  (it was recorded as a success), its file exists and holds the whole JSON text of what
  was extracted; and a URL whose visit went through with a text that is not empty is a
  key of \<open>results\<close>.
\<close>

theorem output_file_exists_iff_opened:
  assumes "u \<in> set DOCS_URLS"
    and "fs (output_file_of u) = None"
  shows "((files (snd (main b w (start fs))) (output_file_of u) \<noteq> None) =
            (\<not> isl (steps b (fixed_list w u)) \<and> open_exc (fixed_list w u) = None))
     \<and> (page_name_of u \<in> fst ` set (fst (after_loop b w fs)) \<longrightarrow>
           (\<exists>c. steps b (fixed_list w u) = Inr c
              \<and> files (snd (main b w (start fs))) (output_file_of u) =
                  Some (json_dump 2 [(''url'', u), (''title'', title_field c),
                                     (''text'', text_field c), (''html'', html_field c)])))
     \<and> (\<forall>c. outcome_of b (fixed_list w u) = Saved c \<and> text_field c \<noteq> [] \<longrightarrow>
           page_name_of u \<in> fst ` set (fst (after_loop b w fs)))"
proof -
  have f: "files (snd (main b w (start fs))) (output_file_of u) =
           file_after u (outcome_of b (fixed_list w u)) None"
    using assms by (simp add: main_files_url)
  have 1: "(files (snd (main b w (start fs))) (output_file_of u) \<noteq> None) =
            (\<not> isl (steps b (fixed_list w u)) \<and> open_exc (fixed_list w u) = None)"
  proof (cases "outcome_of b (fixed_list w u)")
    case (Failed e)
    then show ?thesis using outcome_cases(1)[OF Failed] by (auto simp: f)
  next
    case (Partial n e c)
    then show ?thesis using outcome_cases(2)[OF Partial] by (simp add: f)
  next
    case (Saved c)
    then show ?thesis using outcome_cases(3)[OF Saved] by (simp add: f)
  qed
  have 2: "page_name_of u \<in> fst ` set (fst (after_loop b w fs)) \<longrightarrow>
           (\<exists>c. steps b (fixed_list w u) = Inr c
              \<and> files (snd (main b w (start fs))) (output_file_of u) =
                  Some (json_dump 2 [(''url'', u), (''title'', title_field c),
                                     (''text'', text_field c), (''html'', html_field c)]))"
  proof
    assume "page_name_of u \<in> fst ` set (fst (after_loop b w fs))"
    then have "recorded (outcome_of b (fixed_list w u))"
      using assms(1) by (simp add: results_key_iff)
    then obtain c where c: "outcome_of b (fixed_list w u) = Saved c"
      by (cases "outcome_of b (fixed_list w u)") auto
    then have "steps b (fixed_list w u) = Inr c" using outcome_cases(3) by blast
    moreover have "files (snd (main b w (start fs))) (output_file_of u) =
                  Some (json_dump 2 [(''url'', u), (''title'', title_field c),
                                     (''text'', text_field c), (''html'', html_field c)])"
      by (simp add: f c json_of_def)
    ultimately show "\<exists>c. steps b (fixed_list w u) = Inr c
              \<and> files (snd (main b w (start fs))) (output_file_of u) =
                  Some (json_dump 2 [(''url'', u), (''title'', title_field c),
                                     (''text'', text_field c), (''html'', html_field c)])"
      by blast
  qed
  have 3: "\<forall>c. outcome_of b (fixed_list w u) = Saved c \<and> text_field c \<noteq> [] \<longrightarrow>
           page_name_of u \<in> fst ` set (fst (after_loop b w fs))"
    using assms(1) by (simp add: results_key_iff)
  show ?thesis using 1 2 3 by (intro conjI)
qed

theorem output_file_exists_iff_opened_witness:
  "overview_url \<in> set DOCS_URLS
   \<and> Map.empty (output_file_of overview_url) = (None :: string option)
   \<and> \<not> isl (steps sample_browser (fixed_list all_ok_world overview_url))
   \<and> open_exc (fixed_list all_ok_world overview_url) = None
   \<and> files (snd (main sample_browser all_ok_world (start Map.empty))) (output_file_of overview_url) \<noteq> None
   \<and> outcome_of sample_browser (fixed_list all_ok_world overview_url) = Saved sample_content
   \<and> text_field sample_content \<noteq> []
   \<and> page_name_of overview_url \<in> fst ` set (fst (after_loop sample_browser all_ok_world Map.empty))
   \<and> files (snd (main sample_browser all_ok_world (start Map.empty))) (output_file_of overview_url) =
       Some (json_dump 2 [(''url'', overview_url), (''title'', title_field sample_content),
                          (''text'', text_field sample_content), (''html'', html_field sample_content)])"
proof -
  have u: "overview_url \<in> set DOCS_URLS" by (simp add: overview_url_def DOCS_URLS_def)
  have e: "Map.empty (output_file_of overview_url) = (None :: string option)" by simp
  have s: "steps sample_browser (fixed_list all_ok_world overview_url) = Inr sample_content"
    by (simp add: all_ok_world_def steps_def page_evaluate_def ok_attempt_def sample_extract
        sample_content_def)
  then have a: "\<not> isl (steps sample_browser (fixed_list all_ok_world overview_url))" by simp
  have b: "open_exc (fixed_list all_ok_world overview_url) = None"
    by (simp add: all_ok_world_def ok_attempt_def)
  have o: "outcome_of sample_browser (fixed_list all_ok_world overview_url) = Saved sample_content"
    by (simp add: all_ok_world_def ok_outcome)
  have t: "text_field sample_content \<noteq> []" by (simp add: sample_content_def)
  note th = output_file_exists_iff_opened [OF u e, of sample_browser all_ok_world]
  from th a b have 1: "files (snd (main sample_browser all_ok_world (start Map.empty))) (output_file_of overview_url) \<noteq> None"
    by blast
  from th o t have 2: "page_name_of overview_url \<in> fst ` set (fst (after_loop sample_browser all_ok_world Map.empty))"
    by blast
  with th obtain c where c: "steps sample_browser (fixed_list all_ok_world overview_url) = Inr c"
    "files (snd (main sample_browser all_ok_world (start Map.empty))) (output_file_of overview_url) =
       Some (json_dump 2 [(''url'', overview_url), (''title'', title_field c),
                          (''text'', text_field c), (''html'', html_field c)])"
    by blast
  from c(1) s have "c = sample_content" by simp
  with c(2) have 3: "files (snd (main sample_browser all_ok_world (start Map.empty))) (output_file_of overview_url) =
       Some (json_dump 2 [(''url'', overview_url), (''title'', title_field sample_content),
                          (''text'', text_field sample_content), (''html'', html_field sample_content)])"
    by simp
  show ?thesis using u e a b 1 o t 2 3 by (intro conjI)
qed

text \<open>
  A page extracted with an empty text has its file but is no key of \<open>results\<close>; a page
  extracted while \<open>open\<close> is refused has no file.
\<close>

theorem file_and_record_disagree:
  "files (snd (main sample_browser picture_world (start Map.empty))) ''docs_scraped/overview.json'' \<noteq> None
   \<and> ''overview'' \<notin> fst ` set (fst (after_loop sample_browser picture_world Map.empty))
   \<and> steps sample_browser (fixed_list open_denied_world overview_url) = Inr sample_content
   \<and> files (snd (main sample_browser open_denied_world (start Map.empty))) ''docs_scraped/overview.json'' = None"
proof -
  have u: "overview_url \<in> set DOCS_URLS" by (simp add: overview_url_def DOCS_URLS_def)
  have p: "output_file_of overview_url = ''docs_scraped/overview.json''"
    "page_name_of overview_url = ''overview''"
    by (simp_all add: output_file_of_def page_name_of_def overview_url_def)
  have o1: "outcome_of sample_browser (fixed_list picture_world overview_url) =
            Saved \<lparr>text_field = [], html_field = ''<img></img>'', title_field = sample_title\<rparr>"
    by (simp add: picture_world_def picture_outcome)
  have o2: "outcome_of sample_browser (fixed_list open_denied_world overview_url) = Failed ''Permission denied''"
    by (simp add: open_denied_world_def open_ok_outcome)
  have "files (snd (main sample_browser picture_world (start Map.empty))) (output_file_of overview_url) \<noteq> None"
    using u by (simp add: main_files_url o1)
  then have 1: "files (snd (main sample_browser picture_world (start Map.empty))) ''docs_scraped/overview.json'' \<noteq> None"
    unfolding p .
  have "page_name_of overview_url \<notin> fst ` set (fst (after_loop sample_browser picture_world Map.empty))"
    using u by (simp add: results_key_iff o1)
  then have 2: "''overview'' \<notin> fst ` set (fst (after_loop sample_browser picture_world Map.empty))"
    unfolding p .
  have 3: "steps sample_browser (fixed_list open_denied_world overview_url) = Inr sample_content"
    by (simp add: open_denied_world_def steps_def page_evaluate_def ok_attempt_def sample_extract
        sample_content_def)
  have "files (snd (main sample_browser open_denied_world (start Map.empty))) (output_file_of overview_url) = None"
    using u by (simp add: main_files_url o2)
  then have 4: "files (snd (main sample_browser open_denied_world (start Map.empty))) ''docs_scraped/overview.json'' = None"
    unfolding p .
  show ?thesis using 1 2 3 4 by (intro conjI)
qed

text \<open>
  C6: when the visit of the Notion page goes through, the output ends with the six
  lines of the Notion step and the summary, and the count printed is the length of
  \<open>results\<close>, which is the number of fixed-list URLs recorded in it (those visited
  successfully with a text that is not empty). If all 8 are recorded, the line reads
  \<open>Scraped 8 pages successfully\<close>, each of the 8 distinct paths holds the JSON text of
  its page, and no other file but the Notion text file is touched.
\<close>

theorem summary_counts_recorded_pages:
  assumes "notion_failure (notion_outcome_of b (notion w)) = None"
  shows "out (snd (main b w (start fs))) =
           out (snd (after_loop b w fs)) @
             [[newline] @ ''Scraping Notion page...'',
              ok_mark @ '' Saved Notion docs to docs_scraped/notion_api_docs.txt'',
              [newline] @ replicate 60 CHR ''='',
              ''Scraped '' @ str_nat (length (fst (after_loop b w fs))) @ '' pages successfully'',
              ''Output directory: ./docs_scraped/'',
              replicate 60 CHR ''='']
     \<and> fst (main b w (start fs)) = Inr (fst (after_loop b w fs))
     \<and> map fst (fst (after_loop b w fs)) =
         map page_name_of (filter (\<lambda>u. recorded (outcome_of b (fixed_list w u))) DOCS_URLS)
     \<and> length (fst (after_loop b w fs)) =
         length (filter (\<lambda>u. recorded (outcome_of b (fixed_list w u))) DOCS_URLS)
     \<and> (list_all (\<lambda>u. recorded (outcome_of b (fixed_list w u))) DOCS_URLS \<longrightarrow>
           ''Scraped 8 pages successfully'' \<in> set (out (snd (main b w (start fs))))
         \<and> length (map output_file_of DOCS_URLS) = 8
         \<and> distinct (map output_file_of DOCS_URLS)
         \<and> (\<forall>u\<in>set DOCS_URLS. \<exists>c. steps b (fixed_list w u) = Inr c
               \<and> files (snd (main b w (start fs))) (output_file_of u) =
                   Some (json_dump 2 [(''url'', u), (''title'', title_field c),
                                      (''text'', text_field c), (''html'', html_field c)]))
         \<and> (\<forall>f. f \<notin> output_file_of ` set DOCS_URLS \<and> f \<noteq> ''docs_scraped/notion_api_docs.txt'' \<longrightarrow>
               files (snd (main b w (start fs))) f = fs f))"
proof -
  have 1: "out (snd (main b w (start fs))) =
           out (snd (after_loop b w fs)) @
             [[newline] @ ''Scraping Notion page...'',
              ok_mark @ '' Saved Notion docs to docs_scraped/notion_api_docs.txt'',
              [newline] @ replicate 60 CHR ''='',
              ''Scraped '' @ str_nat (length (fst (after_loop b w fs))) @ '' pages successfully'',
              ''Output directory: ./docs_scraped/'',
              replicate 60 CHR ''='']"
    using main_out_success[OF assms, of fs] by (simp add: notion_line_def summary_line_def)
  have 2: "fst (main b w (start fs)) = Inr (fst (after_loop b w fs))"
    using assms by (simp add: main_fst)
  have 3: "map fst (fst (after_loop b w fs)) =
         map page_name_of (filter (\<lambda>u. recorded (outcome_of b (fixed_list w u))) DOCS_URLS)"
    by (rule results_keys)
  have 4: "length (fst (after_loop b w fs)) =
         length (filter (\<lambda>u. recorded (outcome_of b (fixed_list w u))) DOCS_URLS)"
    by (rule results_length)
  have 5: "''Scraped 8 pages successfully'' \<in> set (out (snd (main b w (start fs))))
         \<and> length (map output_file_of DOCS_URLS) = 8
         \<and> distinct (map output_file_of DOCS_URLS)
         \<and> (\<forall>u\<in>set DOCS_URLS. \<exists>c. steps b (fixed_list w u) = Inr c
               \<and> files (snd (main b w (start fs))) (output_file_of u) =
                   Some (json_dump 2 [(''url'', u), (''title'', title_field c),
                                      (''text'', text_field c), (''html'', html_field c)]))
         \<and> (\<forall>f. f \<notin> output_file_of ` set DOCS_URLS \<and> f \<noteq> ''docs_scraped/notion_api_docs.txt'' \<longrightarrow>
               files (snd (main b w (start fs))) f = fs f)"
    if all: "list_all (\<lambda>u. recorded (outcome_of b (fixed_list w u))) DOCS_URLS"
  proof -
    from all have "filter (\<lambda>u. recorded (outcome_of b (fixed_list w u))) DOCS_URLS = DOCS_URLS"
      by (simp add: list_all_iff)
    then have "length (fst (after_loop b w fs)) = 8" using 4 by (simp add: length_DOCS_URLS)
    then have "summary_line 8 \<in> set (out (snd (main b w (start fs))))"
      using main_out_success[OF assms, of fs] by simp
    then have a: "''Scraped 8 pages successfully'' \<in> set (out (snd (main b w (start fs))))"
      by (simp only: summary_line_literals)
    have b: "length (map output_file_of DOCS_URLS) = 8" by (simp add: length_DOCS_URLS)
    have c: "\<forall>u\<in>set DOCS_URLS. \<exists>c. steps b (fixed_list w u) = Inr c
               \<and> files (snd (main b w (start fs))) (output_file_of u) =
                   Some (json_dump 2 [(''url'', u), (''title'', title_field c),
                                      (''text'', text_field c), (''html'', html_field c)])"
    proof
      fix u assume u: "u \<in> set DOCS_URLS"
      with all have "recorded (outcome_of b (fixed_list w u))" by (simp add: list_all_iff)
      then obtain c where c: "outcome_of b (fixed_list w u) = Saved c"
        using recorded_Saved by blast
      then have "steps b (fixed_list w u) = Inr c" using outcome_cases(3) by blast
      moreover have "files (snd (main b w (start fs))) (output_file_of u) =
                   Some (json_dump 2 [(''url'', u), (''title'', title_field c),
                                      (''text'', text_field c), (''html'', html_field c)])"
        using u by (simp add: main_files_url c json_of_def)
      ultimately show "\<exists>c. steps b (fixed_list w u) = Inr c
               \<and> files (snd (main b w (start fs))) (output_file_of u) =
                   Some (json_dump 2 [(''url'', u), (''title'', title_field c),
                                      (''text'', text_field c), (''html'', html_field c)])"
        by blast
    qed
    have d: "\<forall>f. f \<notin> output_file_of ` set DOCS_URLS \<and> f \<noteq> ''docs_scraped/notion_api_docs.txt'' \<longrightarrow>
               files (snd (main b w (start fs))) f = fs f"
      using main_files_elsewhere[of _ b w fs] by (simp add: notion_file_def)
    show ?thesis using a b distinct_output_files c d by (intro conjI)
  qed
  from 5 have 6: "list_all (\<lambda>u. recorded (outcome_of b (fixed_list w u))) DOCS_URLS \<longrightarrow>
           ''Scraped 8 pages successfully'' \<in> set (out (snd (main b w (start fs))))
         \<and> length (map output_file_of DOCS_URLS) = 8
         \<and> distinct (map output_file_of DOCS_URLS)
         \<and> (\<forall>u\<in>set DOCS_URLS. \<exists>c. steps b (fixed_list w u) = Inr c
               \<and> files (snd (main b w (start fs))) (output_file_of u) =
                   Some (json_dump 2 [(''url'', u), (''title'', title_field c),
                                      (''text'', text_field c), (''html'', html_field c)]))
         \<and> (\<forall>f. f \<notin> output_file_of ` set DOCS_URLS \<and> f \<noteq> ''docs_scraped/notion_api_docs.txt'' \<longrightarrow>
               files (snd (main b w (start fs))) f = fs f)"
    by (rule impI)
  show ?thesis using 1 2 3 4 6 by (intro conjI)
qed

theorem summary_counts_recorded_pages_witness:
  "notion_failure (notion_outcome_of sample_browser (notion all_ok_world)) = None
   \<and> list_all (\<lambda>u. recorded (outcome_of sample_browser (fixed_list all_ok_world u))) DOCS_URLS
   \<and> length (fst (after_loop sample_browser all_ok_world Map.empty)) = 8
   \<and> ''Scraped 8 pages successfully'' \<in> set (out (snd (main sample_browser all_ok_world (start Map.empty))))
   \<and> overview_url \<in> set DOCS_URLS
   \<and> files (snd (main sample_browser all_ok_world (start Map.empty))) (output_file_of overview_url) =
       Some (json_dump 2 [(''url'', overview_url), (''title'', title_field sample_content),
                          (''text'', text_field sample_content), (''html'', html_field sample_content)])"
proof -
  have h: "notion_failure (notion_outcome_of sample_browser (notion all_ok_world)) = None"
    by (simp add: all_ok_world_def ok_notion_outcome)
  have o: "outcome_of sample_browser (fixed_list all_ok_world u) = Saved sample_content" for u
    by (simp add: all_ok_world_def ok_outcome)
  have a: "list_all (\<lambda>u. recorded (outcome_of sample_browser (fixed_list all_ok_world u))) DOCS_URLS"
    by (simp add: o sample_content_def list_all_iff)
  have u: "overview_url \<in> set DOCS_URLS" by (simp add: overview_url_def DOCS_URLS_def)
  have s: "steps sample_browser (fixed_list all_ok_world overview_url) = Inr sample_content"
    using outcome_cases(3)[OF o] by blast
  note th = summary_counts_recorded_pages [OF h, of Map.empty]
  from th have "length (fst (after_loop sample_browser all_ok_world Map.empty)) =
         length (filter (\<lambda>u. recorded (outcome_of sample_browser (fixed_list all_ok_world u))) DOCS_URLS)"
    by blast
  then have 1: "length (fst (after_loop sample_browser all_ok_world Map.empty)) = 8"
    by (simp add: o sample_content_def length_DOCS_URLS)
  from th a have 2: "''Scraped 8 pages successfully'' \<in> set (out (snd (main sample_browser all_ok_world (start Map.empty))))"
    by blast
  from th a have "\<forall>u\<in>set DOCS_URLS. \<exists>c. steps sample_browser (fixed_list all_ok_world u) = Inr c
               \<and> files (snd (main sample_browser all_ok_world (start Map.empty))) (output_file_of u) =
                   Some (json_dump 2 [(''url'', u), (''title'', title_field c),
                                      (''text'', text_field c), (''html'', html_field c)])"
    by blast
  with u obtain c where c: "steps sample_browser (fixed_list all_ok_world overview_url) = Inr c"
    "files (snd (main sample_browser all_ok_world (start Map.empty))) (output_file_of overview_url) =
                   Some (json_dump 2 [(''url'', overview_url), (''title'', title_field c),
                                      (''text'', text_field c), (''html'', html_field c)])"
    by blast
  from c(1) s have "c = sample_content" by simp
  with c(2) have 3: "files (snd (main sample_browser all_ok_world (start Map.empty))) (output_file_of overview_url) =
       Some (json_dump 2 [(''url'', overview_url), (''title'', title_field sample_content),
                          (''text'', text_field sample_content), (''html'', html_field sample_content)])"
    by simp
  show ?thesis using h a 1 2 u 3 by (intro conjI)
qed

text \<open>
  All 8 pages are saved and the Notion navigation times out: no summary is printed. All 8
  pages are saved, one of them with an empty text: 8 files exist and the summary reads 7.
\<close>

theorem eight_successes_without_summary_of_eight:
  "list_all (\<lambda>u. succeeded (outcome_of sample_browser (fixed_list notion_down_world u))) DOCS_URLS
   \<and> ''Scraped 8 pages successfully'' \<notin> set (out (snd (main sample_browser notion_down_world (start Map.empty))))
   \<and> list_all (\<lambda>u. succeeded (outcome_of sample_browser (fixed_list picture_world u))) DOCS_URLS
   \<and> list_all (\<lambda>u. files (snd (main sample_browser picture_world (start Map.empty))) (output_file_of u) \<noteq> None) DOCS_URLS
   \<and> ''Scraped 7 pages successfully'' \<in> set (out (snd (main sample_browser picture_world (start Map.empty))))
   \<and> ''Scraped 8 pages successfully'' \<notin> set (out (snd (main sample_browser picture_world (start Map.empty))))"
proof -
  have 1: "list_all (\<lambda>u. succeeded (outcome_of sample_browser (fixed_list notion_down_world u))) DOCS_URLS"
    by (simp add: notion_down_world_def ok_outcome list_all_iff)
  have "notion_failure (notion_outcome_of sample_browser (notion notion_down_world)) = Some ''Timeout 30000ms exceeded.''"
    by (simp add: notion_down_world_def notion_goto_outcome)
  then have "out (snd (main sample_browser notion_down_world (start Map.empty))) =
             out (snd (after_loop sample_browser notion_down_world Map.empty)) @ [notion_line]"
    by (rule main_out_failure)
  moreover have "summary_line 8 \<noteq> notion_line"
    unfolding summary_line_literals by (simp add: notion_line_def newline_def)
  ultimately have "summary_line 8 \<notin> set (out (snd (main sample_browser notion_down_world (start Map.empty))))"
    using summary_lines_not_in_loop_output(1)[of 8 sample_browser notion_down_world Map.empty] by simp
  then have 2: "''Scraped 8 pages successfully'' \<notin> set (out (snd (main sample_browser notion_down_world (start Map.empty))))"
    unfolding summary_line_literals .
  have o: "outcome_of sample_browser (fixed_list picture_world u) =
             (if u = overview_url
              then Saved \<lparr>text_field = [], html_field = ''<img></img>'', title_field = sample_title\<rparr>
              else Saved sample_content)" for u
    by (simp add: picture_world_def picture_outcome ok_outcome)
  have 3: "list_all (\<lambda>u. succeeded (outcome_of sample_browser (fixed_list picture_world u))) DOCS_URLS"
    by (simp add: o list_all_iff)
  have 4: "list_all (\<lambda>u. files (snd (main sample_browser picture_world (start Map.empty))) (output_file_of u) \<noteq> None) DOCS_URLS"
    by (simp add: list_all_iff main_files_url o)
  have "filter (\<lambda>u. recorded (outcome_of sample_browser (fixed_list picture_world u))) DOCS_URLS =
        tl DOCS_URLS"
    by (simp add: o DOCS_URLS_def overview_url_def sample_content_def)
  then have l: "length (fst (after_loop sample_browser picture_world Map.empty)) = 7"
    by (simp add: results_length DOCS_URLS_def)
  have n: "notion_failure (notion_outcome_of sample_browser (notion picture_world)) = None"
    by (simp add: picture_world_def ok_notion_outcome)
  have out: "out (snd (main sample_browser picture_world (start Map.empty))) =
     out (snd (after_loop sample_browser picture_world Map.empty)) @
       [notion_line,
        ok_mark @ '' Saved Notion docs to docs_scraped/notion_api_docs.txt'',
        [newline] @ replicate 60 CHR ''='',
        summary_line 7,
        ''Output directory: ./docs_scraped/'',
        replicate 60 CHR ''='']"
    using main_out_success[OF n, of Map.empty] by (simp only: l)
  then have "summary_line 7 \<in> set (out (snd (main sample_browser picture_world (start Map.empty))))"
    by simp
  then have 5: "''Scraped 7 pages successfully'' \<in> set (out (snd (main sample_browser picture_world (start Map.empty))))"
    unfolding summary_line_literals .
  have "summary_line 8 \<notin> set [notion_line,
        ok_mark @ '' Saved Notion docs to docs_scraped/notion_api_docs.txt'',
        [newline] @ replicate 60 CHR ''='',
        summary_line 7,
        ''Output directory: ./docs_scraped/'',
        replicate 60 CHR ''='']"
    unfolding summary_line_literals
    by (simp add: notion_line_def newline_def ok_mark_def rule_head)
  then have "summary_line 8 \<notin> set (out (snd (main sample_browser picture_world (start Map.empty))))"
    using summary_lines_not_in_loop_output(1)[of 8 sample_browser picture_world Map.empty]
    unfolding out by simp
  then have 6: "''Scraped 8 pages successfully'' \<notin> set (out (snd (main sample_browser picture_world (start Map.empty))))"
    unfolding summary_line_literals .
  show ?thesis using 1 2 3 4 5 6 by (intro conjI)
qed

text \<open>
  C3: a failure in the visit of a fixed-list URL is caught inside \<open>scrape_page\<close>, which
  prints one error line with the URL and the message and returns \<open>None\<close>. Every URL of
  the list is announced exactly once, in the order of the list (no retry, and the loop
  goes on after a failure); the file of each URL is decided by its own visit alone; and
  the line announcing the Notion page follows the output of the loop. In particular,
  from a directory holding none of the 8 files, if one URL fails before its file is
  written (at navigation, selector wait, extraction or when the file is opened) and the
  7 others go through, exactly the 7 other files exist after the run, each holding the
  JSON text of its page, and the output has exactly one error line, the one of the URL
  that failed.
\<close>

theorem failure_is_isolated_per_url:
  assumes "u \<in> set DOCS_URLS"
    and "failure_of (outcome_of b (fixed_list w u)) = Some e"
  shows "fst (scrape_page b (fixed_list w u) u (output_file_of u) s) = None
     \<and> out (snd (scrape_page b (fixed_list w u) u (output_file_of u) s)) =
         out s @ [''Scraping: '' @ u, error_mark @ '' Error scraping '' @ u @ '': '' @ e]
     \<and> filter (\<lambda>l. take 10 l = ''Scraping: '') (out (snd (after_loop b w fs))) =
         map (\<lambda>v. ''Scraping: '' @ v) DOCS_URLS
     \<and> (\<forall>v\<in>set DOCS_URLS. files (snd (main b w (start fs))) (output_file_of v) =
           file_after v (outcome_of b (fixed_list w v)) (fs (output_file_of v)))
     \<and> take (Suc (length (out (snd (after_loop b w fs))))) (out (snd (main b w (start fs)))) =
         out (snd (after_loop b w fs)) @ [[newline] @ ''Scraping Notion page...'']
     \<and> (outcome_of b (fixed_list w u) = Failed e
          \<and> (\<forall>v\<in>set DOCS_URLS. v \<noteq> u \<longrightarrow> succeeded (outcome_of b (fixed_list w v)))
          \<and> (\<forall>v\<in>set DOCS_URLS. fs (output_file_of v) = None) \<longrightarrow>
            filter (\<lambda>v. files (snd (main b w (start fs))) (output_file_of v) \<noteq> None) DOCS_URLS =
              removeAll u DOCS_URLS
          \<and> length (removeAll u DOCS_URLS) = 7
          \<and> (\<forall>v\<in>set (removeAll u DOCS_URLS). \<exists>c. steps b (fixed_list w v) = Inr c
                \<and> files (snd (main b w (start fs))) (output_file_of v) =
                    Some (json_dump 2 [(''url'', v), (''title'', title_field c),
                                       (''text'', text_field c), (''html'', html_field c)]))
          \<and> filter is_error_line (out (snd (main b w (start fs)))) =
              [error_mark @ '' Error scraping '' @ u @ '': '' @ e])"
proof -
  have 1: "fst (scrape_page b (fixed_list w u) u (output_file_of u) s) = None"
    using assms(2) by (cases "outcome_of b (fixed_list w u)") (simp_all add: scrape_page_outcome)
  have 2: "out (snd (scrape_page b (fixed_list w u) u (output_file_of u) s)) =
         out s @ [''Scraping: '' @ u, error_mark @ '' Error scraping '' @ u @ '': '' @ e]"
    using assms(2)
    by (cases "outcome_of b (fixed_list w u)") (simp_all add: scrape_page_outcome error_line_def)
  have 3: "filter (\<lambda>l. take 10 l = ''Scraping: '') (out (snd (after_loop b w fs))) =
         map (\<lambda>v. ''Scraping: '' @ v) DOCS_URLS"
    by (rule after_loop_announces)
  have 4: "\<forall>v\<in>set DOCS_URLS. files (snd (main b w (start fs))) (output_file_of v) =
           file_after v (outcome_of b (fixed_list w v)) (fs (output_file_of v))"
    by (simp add: main_files_url)
  have 5: "take (Suc (length (out (snd (after_loop b w fs))))) (out (snd (main b w (start fs)))) =
         out (snd (after_loop b w fs)) @ [[newline] @ ''Scraping Notion page...'']"
    using main_out_notion_line[of b w fs] by (simp add: notion_line_def)
  have 6: "filter (\<lambda>v. files (snd (main b w (start fs))) (output_file_of v) \<noteq> None) DOCS_URLS =
              removeAll u DOCS_URLS
          \<and> length (removeAll u DOCS_URLS) = 7
          \<and> (\<forall>v\<in>set (removeAll u DOCS_URLS). \<exists>c. steps b (fixed_list w v) = Inr c
                \<and> files (snd (main b w (start fs))) (output_file_of v) =
                    Some (json_dump 2 [(''url'', v), (''title'', title_field c),
                                       (''text'', text_field c), (''html'', html_field c)]))
          \<and> filter is_error_line (out (snd (main b w (start fs)))) =
              [error_mark @ '' Error scraping '' @ u @ '': '' @ e]"
    if f: "outcome_of b (fixed_list w u) = Failed e"
      and others: "\<forall>v\<in>set DOCS_URLS. v \<noteq> u \<longrightarrow> succeeded (outcome_of b (fixed_list w v))"
      and empty: "\<forall>v\<in>set DOCS_URLS. fs (output_file_of v) = None"
  proof -
    have ex: "(files (snd (main b w (start fs))) (output_file_of v) \<noteq> None) = (u \<noteq> v)"
      if v: "v \<in> set DOCS_URLS" for v
    proof (cases "v = u")
      case True
      then show ?thesis using v f empty by (simp add: main_files_url)
    next
      case False
      then obtain c where "outcome_of b (fixed_list w v) = Saved c"
        using others v succeeded_Saved by blast
      then show ?thesis using False v by (auto simp: main_files_url)
    qed
    have "filter (\<lambda>v. files (snd (main b w (start fs))) (output_file_of v) \<noteq> None) DOCS_URLS =
          filter (\<lambda>v. u \<noteq> v) DOCS_URLS"
    proof (rule filter_cong)
      show "DOCS_URLS = DOCS_URLS" by (rule refl)
    next
      fix v assume "v \<in> set DOCS_URLS"
      then show "(files (snd (main b w (start fs))) (output_file_of v) \<noteq> None) = (u \<noteq> v)"
        by (rule ex)
    qed
    then have a: "filter (\<lambda>v. files (snd (main b w (start fs))) (output_file_of v) \<noteq> None) DOCS_URLS =
              removeAll u DOCS_URLS"
      by (simp add: removeAll_filter_not_eq)
    have "length (remove1 u DOCS_URLS) = 7"
      using assms(1) by (simp add: length_remove1 length_DOCS_URLS)
    then have b: "length (removeAll u DOCS_URLS) = 7"
      using distinct_DOCS_URLS by (simp add: distinct_remove1_removeAll)
    have c: "\<forall>v\<in>set (removeAll u DOCS_URLS). \<exists>c. steps b (fixed_list w v) = Inr c
                \<and> files (snd (main b w (start fs))) (output_file_of v) =
                    Some (json_dump 2 [(''url'', v), (''title'', title_field c),
                                       (''text'', text_field c), (''html'', html_field c)])"
    proof
      fix v assume "v \<in> set (removeAll u DOCS_URLS)"
      then have v: "v \<in> set DOCS_URLS" "v \<noteq> u" by auto
      then obtain c where c: "outcome_of b (fixed_list w v) = Saved c"
        using others succeeded_Saved by blast
      then have "steps b (fixed_list w v) = Inr c" using outcome_cases(3) by blast
      moreover have "files (snd (main b w (start fs))) (output_file_of v) =
                    Some (json_dump 2 [(''url'', v), (''title'', title_field c),
                                       (''text'', text_field c), (''html'', html_field c)])"
        using v(1) by (simp add: main_files_url c json_of_def)
      ultimately show "\<exists>c. steps b (fixed_list w v) = Inr c
                \<and> files (snd (main b w (start fs))) (output_file_of v) =
                    Some (json_dump 2 [(''url'', v), (''title'', title_field c),
                                       (''text'', text_field c), (''html'', html_field c)])"
        by blast
    qed
    have "concat (map (\<lambda>v. case failure_of (outcome_of b (fixed_list w v)) of
                          None \<Rightarrow> [] | Some e \<Rightarrow> [error_line v e]) DOCS_URLS) =
          (case failure_of (outcome_of b (fixed_list w u)) of
                          None \<Rightarrow> [] | Some e \<Rightarrow> [error_line u e])"
      using distinct_DOCS_URLS assms(1)
    proof (rule concat_single)
      fix v assume "v \<in> set DOCS_URLS" "v \<noteq> u"
      then have "failure_of (outcome_of b (fixed_list w v)) = None"
        using others succeeded_failure by blast
      then show "(case failure_of (outcome_of b (fixed_list w v)) of
                          None \<Rightarrow> [] | Some e \<Rightarrow> [error_line v e]) = []"
        by simp
    qed
    then have d: "filter is_error_line (out (snd (main b w (start fs)))) =
              [error_mark @ '' Error scraping '' @ u @ '': '' @ e]"
      by (simp add: main_error_lines after_loop_error_lines assms(2) error_line_def)
    show ?thesis using a b c d by (intro conjI)
  qed
  from 6 have 7: "outcome_of b (fixed_list w u) = Failed e
          \<and> (\<forall>v\<in>set DOCS_URLS. v \<noteq> u \<longrightarrow> succeeded (outcome_of b (fixed_list w v)))
          \<and> (\<forall>v\<in>set DOCS_URLS. fs (output_file_of v) = None) \<longrightarrow>
            filter (\<lambda>v. files (snd (main b w (start fs))) (output_file_of v) \<noteq> None) DOCS_URLS =
              removeAll u DOCS_URLS
          \<and> length (removeAll u DOCS_URLS) = 7
          \<and> (\<forall>v\<in>set (removeAll u DOCS_URLS). \<exists>c. steps b (fixed_list w v) = Inr c
                \<and> files (snd (main b w (start fs))) (output_file_of v) =
                    Some (json_dump 2 [(''url'', v), (''title'', title_field c),
                                       (''text'', text_field c), (''html'', html_field c)]))
          \<and> filter is_error_line (out (snd (main b w (start fs)))) =
              [error_mark @ '' Error scraping '' @ u @ '': '' @ e]"
    by blast
  show ?thesis using 1 2 3 4 5 7 by (intro conjI)
qed

theorem failure_is_isolated_per_url_witness:
  "statuspages_url \<in> set DOCS_URLS
   \<and> failure_of (outcome_of sample_browser (fixed_list nav_timeout_world statuspages_url)) =
       Some ''Timeout 30000ms exceeded.''
   \<and> list_all (\<lambda>v. v = statuspages_url \<or> succeeded (outcome_of sample_browser (fixed_list nav_timeout_world v)))
        DOCS_URLS
   \<and> length (filter (\<lambda>v. files (snd (main sample_browser nav_timeout_world (start Map.empty)))
                            (output_file_of v) \<noteq> None) DOCS_URLS) = 7
   \<and> filter is_error_line (out (snd (main sample_browser nav_timeout_world (start Map.empty)))) =
       [error_mark @ '' Error scraping https://hyperping.com/docs/api/statuspages: Timeout 30000ms exceeded.'']
   \<and> take (Suc (length (out (snd (after_loop sample_browser nav_timeout_world Map.empty)))))
        (out (snd (main sample_browser nav_timeout_world (start Map.empty)))) =
       out (snd (after_loop sample_browser nav_timeout_world Map.empty)) @ [[newline] @ ''Scraping Notion page...'']"
proof -
  have u: "statuspages_url \<in> set DOCS_URLS" by (simp add: statuspages_url_def DOCS_URLS_def)
  have o: "outcome_of sample_browser (fixed_list nav_timeout_world v) =
             (if v = statuspages_url then Failed ''Timeout 30000ms exceeded.'' else Saved sample_content)" for v
    by (simp add: nav_timeout_world_def goto_outcome ok_outcome)
  have f: "failure_of (outcome_of sample_browser (fixed_list nav_timeout_world statuspages_url)) =
             Some ''Timeout 30000ms exceeded.''"
    by (simp add: o)
  have f': "outcome_of sample_browser (fixed_list nav_timeout_world statuspages_url) =
             Failed ''Timeout 30000ms exceeded.''"
    by (simp add: o)
  have others: "\<forall>v\<in>set DOCS_URLS. v \<noteq> statuspages_url \<longrightarrow>
                  succeeded (outcome_of sample_browser (fixed_list nav_timeout_world v))"
    by (simp add: o)
  have l: "list_all (\<lambda>v. v = statuspages_url \<or> succeeded (outcome_of sample_browser (fixed_list nav_timeout_world v)))
        DOCS_URLS"
    by (simp add: o list_all_iff)
  have e: "\<forall>v\<in>set DOCS_URLS. Map.empty (output_file_of v) = (None :: string option)" by simp
  note th = failure_is_isolated_per_url [OF u f, of _ Map.empty]
  from th f' others e
  have a: "filter (\<lambda>v. files (snd (main sample_browser nav_timeout_world (start Map.empty)))
                            (output_file_of v) \<noteq> None) DOCS_URLS = removeAll statuspages_url DOCS_URLS"
    and b: "length (removeAll statuspages_url DOCS_URLS) = 7"
    and c: "filter is_error_line (out (snd (main sample_browser nav_timeout_world (start Map.empty)))) =
       [error_mark @ '' Error scraping '' @ statuspages_url @ '': '' @ ''Timeout 30000ms exceeded.'']"
    by blast+
  from a b have 1: "length (filter (\<lambda>v. files (snd (main sample_browser nav_timeout_world (start Map.empty)))
                            (output_file_of v) \<noteq> None) DOCS_URLS) = 7"
    by simp
  from c have 2: "filter is_error_line (out (snd (main sample_browser nav_timeout_world (start Map.empty)))) =
       [error_mark @ '' Error scraping https://hyperping.com/docs/api/statuspages: Timeout 30000ms exceeded.'']"
    by (simp add: statuspages_url_def)
  from th have 3: "take (Suc (length (out (snd (after_loop sample_browser nav_timeout_world Map.empty)))))
        (out (snd (main sample_browser nav_timeout_world (start Map.empty)))) =
       out (snd (after_loop sample_browser nav_timeout_world Map.empty)) @ [[newline] @ ''Scraping Notion page...'']"
    by blast
  show ?thesis using u f l 1 2 3 by (intro conjI)
qed

text \<open>
  Exactly one entry fails, while its opened file is written: all 8 files exist after the run.
\<close>

theorem one_write_failure_leaves_eight_files:
  "filter (\<lambda>v. \<not> succeeded (outcome_of sample_browser (fixed_list disk_full_world v))) DOCS_URLS =
     [''https://hyperping.com/docs/api/statuspages'']
   \<and> length DOCS_URLS = 8
   \<and> list_all (\<lambda>v. files (snd (main sample_browser disk_full_world (start Map.empty)))
                      (output_file_of v) \<noteq> None) DOCS_URLS"
proof -
  have o: "outcome_of sample_browser (fixed_list disk_full_world v) =
             (if v = statuspages_url then Partial 20 ''No space left on device'' sample_content
              else Saved sample_content)" for v
    by (simp add: disk_full_world_def write_ok_outcome ok_outcome)
  have 1: "filter (\<lambda>v. \<not> succeeded (outcome_of sample_browser (fixed_list disk_full_world v))) DOCS_URLS =
     [''https://hyperping.com/docs/api/statuspages'']"
    by (simp add: o DOCS_URLS_def statuspages_url_def)
  have 3: "list_all (\<lambda>v. files (snd (main sample_browser disk_full_world (start Map.empty)))
                      (output_file_of v) \<noteq> None) DOCS_URLS"
    by (simp add: list_all_iff main_files_url o)
  show ?thesis using 1 length_DOCS_URLS 3 by (intro conjI)
qed

end
